theory Spec2Isabelle
  imports Main
begin

section \<open>Data model (types.ts, the schema of database.ts)\<close>

text \<open>
  Rows are records with the columns of the schema. Identifiers are the positive integers
  handed out by AUTOINCREMENT; Telegram ids and amounts are integers. Display texts
  (tariff label, server name and emoji, message bodies) carry no behaviour and are left out.

  Time. Columns written by SQLite itself (\<open>DEFAULT (datetime('now'))\<close>) and the cut-offs
  SQLite computes (\<open>datetime('now', '-24 hours')\<close>) have one fixed-width text format,
  \<open>YYYY-MM-DD HH:MM:SS\<close>, whose text order is the order of time; such values are
  modelled by their number of seconds since the epoch. The column \<open>expires_at\<close> of a
  subscription is written by the program from JavaScript's \<open>Date.toISOString()\<close> and is
  compared by SQLite as text, so it is kept as the text that is stored.
\<close>

datatype payment_status = Pending | Completed | Expired | Refunded

record payment =
  pay_id :: nat
  pay_telegram_id :: int
  pay_tariff_id :: string
  pay_server_id :: nat
  pay_amount :: int
  pay_status :: payment_status
  pay_invoice_id :: "string option"
  pay_payload :: "string option"
  pay_created_at :: int
  pay_completed_at :: "int option"

record subscription =
  sub_id :: nat
  sub_telegram_id :: int
  sub_server_id :: nat
  sub_client_uuid :: string
  sub_client_email :: string
  sub_tariff_id :: string
  sub_expires_at :: string
  sub_max_devices :: int
  sub_traffic_limit :: int
  sub_traffic_used :: int
  sub_is_active :: nat
  sub_created_at :: int

record server_row =
  srv_id :: nat
  srv_code :: string
  srv_inbound_id :: int
  srv_is_active :: nat

record user_row =
  usr_telegram_id :: int
  usr_is_blocked :: nat
  usr_trial_used :: nat

text \<open>ServerEnvConfig: one configured panel (\<open>config.servers\<close>).\<close>

record server_cfg =
  cfg_code :: string
  cfg_panelUrl :: string
  cfg_panelUsername :: string
  cfg_panelPassword :: string
  cfg_inboundId :: int
  cfg_serverIp :: string
  cfg_serverPort :: int
  cfg_publicKey :: string
  cfg_shortId :: string
  cfg_sni :: string

record tariff =
  t_id :: string
  t_price :: int
  t_days :: int
  t_minutes :: "int option"
  t_maxDevices :: int

section \<open>The outside world\<close>

text \<open>
  An HTTP response as far as the program reads it: the status, the \<open>Set-Cookie\<close> header
  and the body. The body of a panel reply is the envelope \<open>{success, msg, obj}\<close>;
  \<open>NotJson\<close> is a body on which \<open>res.json()\<close> rejects. Of \<open>obj\<close> the program reads
  only whether it is falsy (\<open>JNull\<close>) and its members \<open>up\<close> and \<open>down\<close>.
\<close>

datatype jobj = JNull | JObj "int option" "int option"

datatype payload = NotJson | Json bool "string option" jobj

record response =
  status :: nat
  set_cookie :: "string option"
  body :: payload

datatype fetch_outcome = NetFail string | Reply response

datatype req_body =
    LoginForm string string
  | AddClientBody int string string int int int
  | NoBody

record request =
  req_method :: string
  req_url :: string
  req_cookie :: "string option"
  req_body :: req_body
  req_timeout :: "nat option"

text \<open>What the payment gateway answers to an operation-history query.\<close>

datatype gateway_outcome = GwFail | GwReply "string list option"

text \<open>
  The calls the program makes to its collaborators, in the order it makes them: every
  \<open>fetch\<close>, every \<open>sleep\<close>, the entries of \<open>login\<close> and of \<open>doRequest\<close>, the logger
  messages and the messages sent through the bot.
\<close>

datatype answer =
    ServerNotFound | TariffNotFound | SalesSuspended | TrialAlreadyUsed | TrialActivated
  | PaymentNotFoundOrProcessed | Checking | NotPaidYet | PayLink string | Plain

datatype event =
    Fetch request
  | Sleep nat
  | LoginCall string
  | ApiCall string string string
  | Log string
  | SendMessage int
  | CbAnswer answer

datatype error =
    ConfigNotFound string
  | Transport string
  | ThrownNull
  | LoginFailed string nat
  | NoSessionCookie string
  | ApiError string nat
  | ApiFailed string "string option"
  | BadJson
  | ForeignKey
  | TelegramError

text \<open>
  Everything a call cannot decide for itself: the configuration, the replies of the
  network (the outcome of the k-th call of \<open>fetch\<close> of the process), the gateway's
  answer for a label, the clocks (\<open>Date.now()\<close> in milliseconds, SQLite's \<open>now\<close> in
  seconds and as the text \<open>datetime('now')\<close> returns), the text \<open>toISOString\<close> gives a
  date, the k-th random UUID, the random hex of a payment label and whether Telegram
  accepts a message to a chat.
\<close>

record env =
  cfg_servers :: "server_cfg list"
  yoomoneyToken :: string
  net :: "nat \<Rightarrow> fetch_outcome"
  gateway :: "string \<Rightarrow> gateway_outcome"
  date_now :: int
  sql_now :: int
  sql_now_text :: string
  toISOString :: "int \<Rightarrow> string"
  uuidv4 :: "nat \<Rightarrow> string"
  rand_hex :: string
  tg_ok :: "int \<Rightarrow> bool"

text \<open>
  The state of the process: the tables, the AUTOINCREMENT sequences, the session cache of
  vpn-manager.ts, the two module variables of payments.ts, the numbers of \<open>fetch\<close> and
  \<open>uuidv4\<close> calls made so far and the trace of calls.
\<close>

record state =
  servers :: "server_row list"
  users :: "user_row list"
  subscriptions :: "subscription list"
  payments :: "payment list"
  sub_seq :: nat
  pay_seq :: nat
  sessions :: "(string \<times> string) list"
  salesBlocked :: bool
  bot_set :: bool
  fetches :: nat
  uuids :: nat
  trace :: "event list"

definition emit :: "event \<Rightarrow> state \<Rightarrow> state" where
  "emit e s = s\<lparr>trace := trace s @ [e]\<rparr>"

section \<open>database.ts\<close>

text \<open>
  SQLite compares two texts bytewise (the BINARY collation): the first differing byte
  decides, and a proper prefix is smaller.
\<close>

fun text_le :: "string \<Rightarrow> string \<Rightarrow> bool" where
  "text_le [] ys = True"
| "text_le (x # xs) [] = False"
| "text_le (x # xs) (y # ys) =
     (if (of_char x :: nat) < of_char y then True
      else if (of_char y :: nat) < of_char x then False
      else text_le xs ys)"

definition getServers :: "state \<Rightarrow> server_row list" where
  "getServers s = filter (\<lambda>r. srv_is_active r = 1) (servers s)"

definition getServerByCode :: "string \<Rightarrow> state \<Rightarrow> server_row option" where
  "getServerByCode code s = find (\<lambda>r. srv_code r = code) (servers s)"

definition getServerById :: "nat \<Rightarrow> state \<Rightarrow> server_row option" where
  "getServerById i s = find (\<lambda>r. srv_id r = i) (servers s)"

definition getUser :: "int \<Rightarrow> state \<Rightarrow> user_row option" where
  "getUser telegramId s = find (\<lambda>u. usr_telegram_id u = telegramId) (users s)"

definition markTrialUsed :: "int \<Rightarrow> state \<Rightarrow> state" where
  "markTrialUsed telegramId s =
     s\<lparr>users := map (\<lambda>u. if usr_telegram_id u = telegramId then u\<lparr>usr_trial_used := 1\<rparr> else u) (users s)\<rparr>"

text \<open>
  The two foreign keys of \<open>subscriptions\<close> and of \<open>payments\<close> are enforced
  (\<open>foreign_keys = ON\<close>): an insert that names no user row or no server row throws.
\<close>

definition fk_ok :: "int \<Rightarrow> nat \<Rightarrow> state \<Rightarrow> bool" where
  "fk_ok telegramId serverId s =
     (getUser telegramId s \<noteq> None \<and> getServerById serverId s \<noteq> None)"

definition createSubscription ::
  "env \<Rightarrow> int \<Rightarrow> nat \<Rightarrow> string \<Rightarrow> string \<Rightarrow> string \<Rightarrow> string \<Rightarrow> int \<Rightarrow> int \<Rightarrow> state
     \<Rightarrow> (error + subscription) \<times> state" where
  "createSubscription e telegramId serverId clientUuid clientEmail tariffId expiresAt maxDevices trafficLimit s =
     (if \<not> fk_ok telegramId serverId s then (Inl ForeignKey, s)
      else (let row = \<lparr>sub_id = sub_seq s + 1, sub_telegram_id = telegramId, sub_server_id = serverId,
                        sub_client_uuid = clientUuid, sub_client_email = clientEmail,
                        sub_tariff_id = tariffId, sub_expires_at = expiresAt,
                        sub_max_devices = maxDevices, sub_traffic_limit = trafficLimit,
                        sub_traffic_used = 0, sub_is_active = 1, sub_created_at = sql_now e\<rparr>
            in (Inr row, s\<lparr>subscriptions := subscriptions s @ [row], sub_seq := sub_seq s + 1\<rparr>)))"

text \<open>The join \<open>JOIN servers srv ON srv.id = s.server_id\<close> of the listing queries.\<close>

definition joined :: "state \<Rightarrow> (subscription \<times> server_row) list" where
  "joined s =
     concat (map (\<lambda>sub. case getServerById (sub_server_id sub) s of
                           None \<Rightarrow> []
                         | Some srv \<Rightarrow> [(sub, srv)]) (subscriptions s))"

definition getActiveSubscriptions :: "int \<Rightarrow> state \<Rightarrow> (subscription \<times> server_row) list" where
  "getActiveSubscriptions telegramId s =
     sort_key (\<lambda>r. - sub_created_at (fst r))
       (filter (\<lambda>r. sub_telegram_id (fst r) = telegramId \<and> sub_is_active (fst r) = 1) (joined s))"

text \<open>\<open>WHERE s.is_active = 1 AND s.expires_at <= datetime('now')\<close>, a comparison of texts.\<close>

definition getExpiredSubscriptions :: "env \<Rightarrow> state \<Rightarrow> (subscription \<times> server_row) list" where
  "getExpiredSubscriptions e s =
     filter (\<lambda>r. sub_is_active (fst r) = 1 \<and> text_le (sub_expires_at (fst r)) (sql_now_text e)) (joined s)"

definition deactivateSubscription :: "nat \<Rightarrow> state \<Rightarrow> state" where
  "deactivateSubscription i s =
     s\<lparr>subscriptions := map (\<lambda>r. if sub_id r = i then r\<lparr>sub_is_active := 0\<rparr> else r) (subscriptions s)\<rparr>"

definition createPayment ::
  "env \<Rightarrow> int \<Rightarrow> string \<Rightarrow> nat \<Rightarrow> int \<Rightarrow> string \<Rightarrow> string \<Rightarrow> state \<Rightarrow> (error + payment) \<times> state" where
  "createPayment e telegramId tariffId serverId amount invoiceId pl s =
     (if \<not> fk_ok telegramId serverId s then (Inl ForeignKey, s)
      else (let row = \<lparr>pay_id = pay_seq s + 1, pay_telegram_id = telegramId, pay_tariff_id = tariffId,
                        pay_server_id = serverId, pay_amount = amount, pay_status = Pending,
                        pay_invoice_id = Some invoiceId, pay_payload = Some pl,
                        pay_created_at = sql_now e, pay_completed_at = None\<rparr>
            in (Inr row, s\<lparr>payments := payments s @ [row], pay_seq := pay_seq s + 1\<rparr>)))"

definition getPendingPayments :: "state \<Rightarrow> payment list" where
  "getPendingPayments s = filter (\<lambda>p. pay_status p = Pending) (payments s)"

definition getPaymentByInvoiceId :: "string \<Rightarrow> state \<Rightarrow> payment option" where
  "getPaymentByInvoiceId invoiceId s = find (\<lambda>p. pay_invoice_id p = Some invoiceId) (payments s)"

definition completePayment :: "env \<Rightarrow> nat \<Rightarrow> state \<Rightarrow> state" where
  "completePayment e i s =
     s\<lparr>payments := map (\<lambda>p. if pay_id p = i
                             then p\<lparr>pay_status := Completed, pay_completed_at := Some (sql_now e)\<rparr>
                             else p) (payments s)\<rparr>"

text \<open>
  \<open>UPDATE payments SET status = 'expired'
     WHERE status = 'pending' AND created_at <= datetime('now', '-24 hours')\<close>,
  returning \<open>result.changes\<close>.
\<close>

definition expireOldPayments :: "env \<Rightarrow> state \<Rightarrow> nat \<times> state" where
  "expireOldPayments e s =
     (let hit = (\<lambda>p. pay_status p = Pending \<and> pay_created_at p \<le> sql_now e - 86400)
      in (length (filter hit (payments s)),
          s\<lparr>payments := map (\<lambda>p. if hit p then p\<lparr>pay_status := Expired\<rparr> else p) (payments s)\<rparr>))"

section \<open>tariffs.ts\<close>

definition ruTariffs :: "tariff list" where
  "ruTariffs =
     [\<lparr>t_id = ''trial'', t_price = 0, t_days = 1, t_minutes = None, t_maxDevices = 1\<rparr>,
      \<lparr>t_id = ''week'', t_price = 50, t_days = 7, t_minutes = None, t_maxDevices = 2\<rparr>,
      \<lparr>t_id = ''month'', t_price = 150, t_days = 30, t_minutes = None, t_maxDevices = 3\<rparr>,
      \<lparr>t_id = ''quarter'', t_price = 400, t_days = 90, t_minutes = None, t_maxDevices = 3\<rparr>,
      \<lparr>t_id = ''year'', t_price = 1200, t_days = 365, t_minutes = None, t_maxDevices = 3\<rparr>]"

definition nlTariffs :: "tariff list" where
  "nlTariffs =
     [\<lparr>t_id = ''trial'', t_price = 0, t_days = 1, t_minutes = None, t_maxDevices = 1\<rparr>,
      \<lparr>t_id = ''week'', t_price = 80, t_days = 7, t_minutes = None, t_maxDevices = 2\<rparr>,
      \<lparr>t_id = ''month'', t_price = 250, t_days = 30, t_minutes = None, t_maxDevices = 3\<rparr>,
      \<lparr>t_id = ''quarter'', t_price = 650, t_days = 90, t_minutes = None, t_maxDevices = 3\<rparr>,
      \<lparr>t_id = ''year'', t_price = 2000, t_days = 365, t_minutes = None, t_maxDevices = 3\<rparr>]"

text \<open>
  The table \<open>serverTariffs\<close> with its two own keys. (Members an object literal inherits
  from \<open>Object.prototype\<close> are not modelled.)
\<close>

definition serverTariffs :: "string \<Rightarrow> tariff list option" where
  "serverTariffs serverCode =
     (if serverCode = ''ru'' then Some ruTariffs
      else if serverCode = ''nl'' then Some nlTariffs
      else None)"

definition getTariff :: "string \<Rightarrow> string \<Rightarrow> tariff option" where
  "getTariff serverCode tariffId =
     (case serverTariffs serverCode of
        None \<Rightarrow> None
      | Some tariffs \<Rightarrow> find (\<lambda>t. t_id t = tariffId) tariffs)"

section \<open>vpn-manager.ts: the session client\<close>

text \<open>Decimal text of a number, as a template literal prints an integer.\<close>

function show_nat :: "nat \<Rightarrow> string" where
  "show_nat n =
     (if n < 10 then [''0123456789'' ! n]
      else show_nat (n div 10) @ [''0123456789'' ! (n mod 10)])"
  by pat_completeness auto
termination
  by (relation "measure (\<lambda>n. n)") auto

declare show_nat.simps [simp del]

definition show_int :: "int \<Rightarrow> string" where
  "show_int i = (if i < 0 then CHR ''-'' # show_nat (nat (- i)) else show_nat (nat i))"

definition getServerConfig :: "env \<Rightarrow> string \<Rightarrow> error + server_cfg" where
  "getServerConfig e serverCode =
     (case find (\<lambda>s. cfg_code s = serverCode) (cfg_servers e) of
        None \<Rightarrow> Inl (ConfigNotFound serverCode)
      | Some srv \<Rightarrow> Inr srv)"

text \<open>\<open>res.ok\<close>: the status is in the range 200..299.\<close>

definition res_ok :: "response \<Rightarrow> bool" where
  "res_ok r = (200 \<le> status r \<and> status r \<le> 299)"

text \<open>
  The loop of \<open>fetchWithRetry\<close>, with its variables \<open>attempt\<close> and \<open>lastError\<close>. Each pass
  calls \<open>fetch\<close> with \<open>AbortSignal.timeout(15_000)\<close>; a rejection is kept in \<open>lastError\<close>
  and, unless the pass was the last one, followed by \<open>sleep(2^attempt * 1000)\<close>. The
  source's test \<open>attempt < retries - 1\<close> is evaluated only inside the loop, where
  \<open>retries\<close> is at least 1, and is written \<open>attempt + 1 < retries\<close> on naturals. After
  the loop \<open>lastError\<close> is thrown (\<open>null\<close> when no pass was made).
\<close>

function fetchLoop ::
  "env \<Rightarrow> request \<Rightarrow> nat \<Rightarrow> nat \<Rightarrow> string option \<Rightarrow> state \<Rightarrow> (error + response) \<times> state" where
  "fetchLoop e rq retries attempt lastError s =
     (if attempt < retries then
        (let s1 = emit (Fetch (rq\<lparr>req_timeout := Some 15000\<rparr>)) (s\<lparr>fetches := fetches s + 1\<rparr>)
         in case net e (fetches s) of
              Reply r \<Rightarrow> (Inr r, s1)
            | NetFail m \<Rightarrow>
                fetchLoop e rq retries (attempt + 1) (Some m)
                  (if attempt + 1 < retries
                   then emit (Sleep (2 ^ attempt * 1000)) (emit (Log ''Fetch retry'') s1)
                   else s1))
      else (Inl (case lastError of None \<Rightarrow> ThrownNull | Some m \<Rightarrow> Transport m), s))"
  by pat_completeness auto
termination
  by (relation "measure (\<lambda>(e, rq, retries, attempt, lastError, s). retries - attempt)") auto

declare fetchLoop.simps [simp del]

definition fetchWithRetry ::
  "env \<Rightarrow> request \<Rightarrow> nat \<Rightarrow> state \<Rightarrow> (error + response) \<times> state" where
  "fetchWithRetry e rq retries s = fetchLoop e rq retries 0 None s"

text \<open>\<open>sessions.set(serverCode, cookie)\<close> on the cache, a JavaScript Map.\<close>

definition session_set :: "string \<Rightarrow> string \<Rightarrow> (string \<times> string) list \<Rightarrow> (string \<times> string) list" where
  "session_set k v m = (k, v) # filter (\<lambda>kv. fst kv \<noteq> k) m"

text \<open>
  \<open>login\<close>: an unknown code, a transport failure, a status outside 2xx and a missing (or
  empty, hence falsy) \<open>Set-Cookie\<close> header each throw; otherwise the text before the first
  semicolon is cached and returned.
\<close>

definition login :: "env \<Rightarrow> string \<Rightarrow> state \<Rightarrow> (error + string) \<times> state" where
  "login e serverCode s0 =
     (let s = emit (LoginCall serverCode) s0 in
      case getServerConfig e serverCode of
        Inl err \<Rightarrow> (Inl err, s)
      | Inr srv \<Rightarrow>
          (case fetchWithRetry e
                  \<lparr>req_method = ''POST'', req_url = cfg_panelUrl srv @ ''/login'', req_cookie = None,
                   req_body = LoginForm (cfg_panelUsername srv) (cfg_panelPassword srv),
                   req_timeout = None\<rparr> 3 s of
             (Inl err, s1) \<Rightarrow> (Inl err, s1)
           | (Inr res, s1) \<Rightarrow>
               if \<not> res_ok res then (Inl (LoginFailed serverCode (status res)), s1)
               else (case set_cookie res of
                       None \<Rightarrow> (Inl (NoSessionCookie serverCode), s1)
                     | Some sc \<Rightarrow>
                         if sc = [] then (Inl (NoSessionCookie serverCode), s1)
                         else (let cookie = takeWhile (\<lambda>c. c \<noteq> CHR '';'') sc
                               in (Inr cookie,
                                   emit (Log ''3X-UI login successful'')
                                     (s1\<lparr>sessions := session_set serverCode cookie (sessions s1)\<rparr>))))))"

text \<open>\<open>ensureSession\<close>: a cached cookie is used when it is truthy (present and not empty).\<close>

definition ensureSession :: "env \<Rightarrow> string \<Rightarrow> state \<Rightarrow> (error + string) \<times> state" where
  "ensureSession e serverCode s =
     (case map_of (sessions s) serverCode of
        None \<Rightarrow> login e serverCode s
      | Some cookie \<Rightarrow> if cookie = [] then login e serverCode s else (Inr cookie, s))"

text \<open>The closure \<open>doRequest\<close> of \<open>apiRequest\<close>.\<close>

definition doRequest ::
  "env \<Rightarrow> string \<Rightarrow> string \<Rightarrow> req_body \<Rightarrow> string \<Rightarrow> state \<Rightarrow> (error + response) \<times> state" where
  "doRequest e method url bdy sessionCookie s =
     fetchWithRetry e
       \<lparr>req_method = method, req_url = url, req_cookie = Some sessionCookie, req_body = bdy,
        req_timeout = None\<rparr> 3 (emit (ApiCall method url sessionCookie) s)"

text \<open>What \<open>apiRequest\<close> does with the response it ends up with.\<close>

definition unwrap :: "string \<Rightarrow> response \<Rightarrow> error + jobj" where
  "unwrap serverCode res =
     (if \<not> res_ok res then Inl (ApiError serverCode (status res))
      else case body res of
             NotJson \<Rightarrow> Inl BadJson
           | Json success msg obj \<Rightarrow> if \<not> success then Inl (ApiFailed serverCode msg) else Inr obj)"

definition apiRequest ::
  "env \<Rightarrow> string \<Rightarrow> string \<Rightarrow> string \<Rightarrow> req_body \<Rightarrow> state \<Rightarrow> (error + jobj) \<times> state" where
  "apiRequest e serverCode method path bdy s =
     (case getServerConfig e serverCode of
        Inl err \<Rightarrow> (Inl err, s)
      | Inr srv \<Rightarrow>
          (let url = cfg_panelUrl srv @ path in
           case ensureSession e serverCode s of
             (Inl err, s1) \<Rightarrow> (Inl err, s1)
           | (Inr cookie, s1) \<Rightarrow>
               (case doRequest e method url bdy cookie s1 of
                  (Inl err, s2) \<Rightarrow> (Inl err, s2)
                | (Inr res, s2) \<Rightarrow>
                    if status res = 401 then
                      (case login e serverCode (emit (Log ''Session expired, re-logging in'') s2) of
                         (Inl err, s3) \<Rightarrow> (Inl err, s3)
                       | (Inr cookie', s3) \<Rightarrow>
                           (case doRequest e method url bdy cookie' s3 of
                              (Inl err, s4) \<Rightarrow> (Inl err, s4)
                            | (Inr res', s4) \<Rightarrow> (unwrap serverCode res', s4)))
                    else (unwrap serverCode res, s2))))"

section \<open>vpn-manager.ts: the provisioning operations\<close>

definition addClient ::
  "env \<Rightarrow> string \<Rightarrow> string \<Rightarrow> string \<Rightarrow> int \<Rightarrow> int \<Rightarrow> int \<Rightarrow> state \<Rightarrow> (error + unit) \<times> state" where
  "addClient e serverCode uuid email limitIp trafficBytes expiryTimestampMs s =
     (case getServerConfig e serverCode of
        Inl err \<Rightarrow> (Inl err, s)
      | Inr srv \<Rightarrow>
          (case apiRequest e serverCode ''POST'' ''/panel/api/inbounds/addClient''
                  (AddClientBody (cfg_inboundId srv) uuid email limitIp trafficBytes expiryTimestampMs) s of
             (Inl err, s1) \<Rightarrow> (Inl err, s1)
           | (Inr obj, s1) \<Rightarrow> (Inr (), emit (Log ''Client added to 3X-UI'') s1)))"

definition removeClient :: "env \<Rightarrow> string \<Rightarrow> string \<Rightarrow> state \<Rightarrow> (error + unit) \<times> state" where
  "removeClient e serverCode clientUuid s =
     (case getServerConfig e serverCode of
        Inl err \<Rightarrow> (Inl err, s)
      | Inr srv \<Rightarrow>
          (case apiRequest e serverCode ''POST''
                  (''/panel/api/inbounds/'' @ show_int (cfg_inboundId srv) @ ''/delClient/'' @ clientUuid)
                  NoBody s of
             (Inl err, s1) \<Rightarrow> (Inl err, s1)
           | (Inr obj, s1) \<Rightarrow> (Inr (), emit (Log ''Client removed from 3X-UI'') s1)))"

record traffic =
  up :: int
  down :: int
  total :: int

text \<open>\<open>x || 0\<close> on a member that is a number or missing.\<close>

definition or0 :: "int option \<Rightarrow> int" where
  "or0 x = (case x of None \<Rightarrow> 0 | Some n \<Rightarrow> n)"

definition getClientTraffic :: "env \<Rightarrow> string \<Rightarrow> string \<Rightarrow> state \<Rightarrow> (error + traffic) \<times> state" where
  "getClientTraffic e serverCode email s =
     (case apiRequest e serverCode ''GET'' (''/panel/api/inbounds/getClientTraffics/'' @ email) NoBody s of
        (Inl err, s1) \<Rightarrow> (Inl err, s1)
      | (Inr JNull, s1) \<Rightarrow> (Inr \<lparr>up = 0, down = 0, total = 0\<rparr>, s1)
      | (Inr (JObj u d), s1) \<Rightarrow> (Inr \<lparr>up = or0 u, down = or0 d, total = or0 u + or0 d\<rparr>, s1))"

text \<open>\<open>healthCheck\<close>: everything sits in one \<open>try\<close>, and the \<open>catch\<close> returns false.\<close>

definition healthCheck :: "env \<Rightarrow> string \<Rightarrow> state \<Rightarrow> bool \<times> state" where
  "healthCheck e serverCode s =
     (case getServerConfig e serverCode of
        Inl err \<Rightarrow> (False, s)
      | Inr srv \<Rightarrow>
          (case fetchWithRetry e
                  \<lparr>req_method = ''GET'', req_url = cfg_panelUrl srv @ ''/'', req_cookie = None,
                   req_body = NoBody, req_timeout = None\<rparr> 2 s of
             (Inl err, s1) \<Rightarrow> (False, s1)
           | (Inr res, s1) \<Rightarrow> (res_ok res \<or> status res = 302, s1)))"


text \<open>
  \<open>healthCheckAll\<close> maps an async callback over the configured servers and awaits
  \<open>Promise.all\<close>. Each callback runs at once up to its first \<open>await\<close>, which is the
  \<open>await fetch\<close> of the first attempt: so the first requests of all probes are issued, in
  the order of the configuration, before any of them is answered. From then on the probes
  proceed independently, each at the moments its own fetch settles and its own sleep
  ends. A probe is therefore a small machine:

  \<^item> \<open>Await1 code srv k\<close>: its first request is the k-th fetch of the process and has not
    settled yet;
  \<^item> \<open>Sleeping code srv\<close>: the first attempt was rejected, the retry was logged and
    \<open>sleep(1000)\<close> is running;
  \<^item> \<open>Await2 code srv k\<close>: its second request is the k-th fetch and has not settled;
  \<^item> \<open>Finished\<close>: \<open>healthCheck\<close> has returned and \<open>results.set(code, ok)\<close> is done.
\<close>

datatype probe =
    Await1 string server_cfg nat
  | Sleeping string server_cfg
  | Await2 string server_cfg nat
  | Finished

definition probe_request :: "server_cfg \<Rightarrow> request" where
  "probe_request srv =
     \<lparr>req_method = ''GET'', req_url = cfg_panelUrl srv @ ''/'', req_cookie = None,
      req_body = NoBody, req_timeout = Some 15000\<rparr>"

text \<open>
  The part of one callback that runs inside \<open>map\<close>: the lookup (whose failure the
  \<open>catch\<close> of \<open>healthCheck\<close> turns into false) and the call of \<open>fetch\<close> for attempt 0.
\<close>

definition probeStart ::
  "env \<Rightarrow> string \<Rightarrow> (string \<rightharpoonup> bool) \<Rightarrow> state \<Rightarrow> probe \<times> (string \<rightharpoonup> bool) \<times> state" where
  "probeStart e serverCode results s =
     (case getServerConfig e serverCode of
        Inl err \<Rightarrow> (Finished, results(serverCode \<mapsto> False), s)
      | Inr srv \<Rightarrow>
          (Await1 serverCode srv (fetches s), results,
           emit (Fetch (probe_request srv)) (s\<lparr>fetches := fetches s + 1\<rparr>)))"

text \<open>
  One resumption of a probe. A settled first fetch either answers the probe or, being
  attempt 0 of 2, is followed by the log line and \<open>sleep(2^0 * 1000)\<close>; the end of the sleep
  issues attempt 1; a settled second fetch answers the probe, a rejection being thrown out
  of the loop and caught as false.
\<close>

fun probeStep ::
  "env \<Rightarrow> probe \<Rightarrow> (string \<rightharpoonup> bool) \<Rightarrow> state \<Rightarrow> probe \<times> (string \<rightharpoonup> bool) \<times> state" where
  "probeStep e (Await1 code srv k) results s =
     (case net e k of
        Reply r \<Rightarrow> (Finished, results(code \<mapsto> (res_ok r \<or> status r = 302)), s)
      | NetFail m \<Rightarrow> (Sleeping code srv, results, emit (Sleep 1000) (emit (Log ''Fetch retry'') s)))"
| "probeStep e (Sleeping code srv) results s =
     (Await2 code srv (fetches s), results,
      emit (Fetch (probe_request srv)) (s\<lparr>fetches := fetches s + 1\<rparr>))"
| "probeStep e (Await2 code srv k) results s =
     (case net e k of
        Reply r \<Rightarrow> (Finished, results(code \<mapsto> (res_ok r \<or> status r = 302)), s)
      | NetFail m \<Rightarrow> (Finished, results(code \<mapsto> False), s))"
| "probeStep e Finished results s = (Finished, results, s)"

fun startProbes ::
  "env \<Rightarrow> server_cfg list \<Rightarrow> (string \<rightharpoonup> bool) \<Rightarrow> state \<Rightarrow> probe list \<times> (string \<rightharpoonup> bool) \<times> state" where
  "startProbes e [] results s = ([], results, s)"
| "startProbes e (srv # rest) results s =
     (case probeStart e (cfg_code srv) results s of
        (p, results1, s1) \<Rightarrow>
          (case startProbes e rest results1 s1 of
             (ps, results2, s2) \<Rightarrow> (p # ps, results2, s2)))"

text \<open>
  The order in which the probes are resumed is decided by the network and the timers, not
  by the program: it is a schedule, the list of the positions of the probes resumed one
  after the other.
\<close>

fun runSched ::
  "env \<Rightarrow> nat list \<Rightarrow> probe list \<Rightarrow> (string \<rightharpoonup> bool) \<Rightarrow> state \<Rightarrow> probe list \<times> (string \<rightharpoonup> bool) \<times> state" where
  "runSched e [] ps results s = (ps, results, s)"
| "runSched e (i # sched) ps results s =
     (if i < length ps
      then (case probeStep e (ps ! i) results s of
              (p, results1, s1) \<Rightarrow> runSched e sched (ps[i := p]) results1 s1)
      else runSched e sched ps results s)"

text \<open>
  \<open>Promise.all\<close> resolves when every probe has finished. A probe finishes within three
  resumptions, so whatever the given schedule leaves undone is completed by resuming each
  probe three more times; a schedule that already finishes every probe is not changed by
  this, and every order of resumption the program can see is some schedule.
\<close>

definition drain :: "nat \<Rightarrow> nat list" where
  "drain n = concat (map (\<lambda>i. [i, i, i]) [0..<n])"

definition healthCheckAll :: "env \<Rightarrow> nat list \<Rightarrow> state \<Rightarrow> (string \<rightharpoonup> bool) \<times> state" where
  "healthCheckAll e sched s =
     (case startProbes e (cfg_servers e) Map.empty s of
        (ps, results, s1) \<Rightarrow>
          (case runSched e (sched @ drain (length ps)) ps results s1 of
             (ps', results', s') \<Rightarrow> (results', s')))"

text \<open>
  \<open>buildVlessLink\<close> reads the configuration (and throws for an unknown code); the link is
  kept as its parts, not as the encoded URI text.
\<close>

record vless =
  vl_uuid :: string
  vl_host :: string
  vl_port :: int
  vl_pbk :: string
  vl_sni :: string
  vl_sid :: string
  vl_label :: string

definition buildVlessLink :: "env \<Rightarrow> string \<Rightarrow> string \<Rightarrow> string \<Rightarrow> error + vless" where
  "buildVlessLink e serverCode uuid label =
     (case getServerConfig e serverCode of
        Inl err \<Rightarrow> Inl err
      | Inr srv \<Rightarrow>
          Inr \<lparr>vl_uuid = uuid, vl_host = cfg_serverIp srv, vl_port = cfg_serverPort srv,
               vl_pbk = cfg_publicKey srv, vl_sni = cfg_sni srv, vl_sid = cfg_shortId srv,
               vl_label = label\<rparr>)"

section \<open>payments.ts\<close>

definition toggleSales :: "state \<Rightarrow> bool \<times> state" where
  "toggleSales s = (\<not> salesBlocked s, s\<lparr>salesBlocked := \<not> salesBlocked s\<rparr>)"

text \<open>
  \<open>checkYooMoneyPayment\<close>: false without a token; otherwise one plain \<open>fetch\<close> to the
  gateway (no retry, no timeout option), whose failure is caught and gives false; true
  exactly when the first listed operation has status \<open>success\<close>.
\<close>

definition checkYooMoneyPayment :: "env \<Rightarrow> string \<Rightarrow> bool" where
  "checkYooMoneyPayment e label =
     (if yoomoneyToken e = [] then False
      else case gateway e label of
             GwFail \<Rightarrow> False
           | GwReply None \<Rightarrow> False
           | GwReply (Some []) \<Rightarrow> False
           | GwReply (Some (st # rest)) \<Rightarrow> st = ''success'')"

definition generatePaymentLabel :: "env \<Rightarrow> int \<Rightarrow> string \<Rightarrow> string \<Rightarrow> string" where
  "generatePaymentLabel e userId serverCode tariffId =
     ''pay_'' @ show_int userId @ ''_'' @ serverCode @ ''_'' @ tariffId @ ''_'' @ rand_hex e"

text \<open>\<open>toUpperCase\<close> on the letters a..z (server codes are lower-case ASCII letters).\<close>

definition upper_char :: "char \<Rightarrow> char" where
  "upper_char c =
     (let n = (of_char c :: nat) in if 97 \<le> n \<and> n \<le> 122 then char_of (n - 32) else c)"

text \<open>The expiry instant in milliseconds: \<open>tariff.minutes\<close> when it is truthy, else the days.\<close>

definition expiryMs :: "env \<Rightarrow> tariff \<Rightarrow> int" where
  "expiryMs e t =
     (case t_minutes t of
        Some m \<Rightarrow> if m \<noteq> 0 then date_now e + m * 60000 else date_now e + t_days t * 24 * 60 * 60000
      | None \<Rightarrow> date_now e + t_days t * 24 * 60 * 60000)"

text \<open>The remote-visible name of a client: \<open>tg_<telegram id>_<code>_<first 8 of the uuid>\<close>.\<close>

definition tgEmail :: "int \<Rightarrow> string \<Rightarrow> string \<Rightarrow> string" where
  "tgEmail telegramId serverCode clientUuid =
     ''tg_'' @ show_int telegramId @ ''_'' @ serverCode @ ''_'' @ take 8 clientUuid"

text \<open>
  \<open>activateSubscription\<close>, statement by statement. The three early returns (no bot, no
  server row, no tariff) resolve normally. \<open>await addClient\<close> comes before the two
  writes; a rejection of it, of \<open>buildVlessLink\<close> or of \<open>sendMessage\<close> rejects the
  call. The QR code block catches its own failure.
\<close>

definition activateSubscription :: "env \<Rightarrow> payment \<Rightarrow> state \<Rightarrow> (error + unit) \<times> state" where
  "activateSubscription e pmt s =
     (if \<not> bot_set s then (Inr (), s)
      else case getServerById (pay_server_id pmt) s of
        None \<Rightarrow> (Inr (), emit (Log ''Server not found for payment'') s)
      | Some server \<Rightarrow>
         (case getTariff (srv_code server) (pay_tariff_id pmt) of
            None \<Rightarrow> (Inr (), emit (Log ''Tariff not found'') s)
          | Some t \<Rightarrow>
             (let clientUuid = uuidv4 e (uuids s);
                  s0 = s\<lparr>uuids := uuids s + 1\<rparr>;
                  clientEmail = tgEmail (pay_telegram_id pmt) (srv_code server) clientUuid;
                  expiresAt = expiryMs e t
              in case addClient e (srv_code server) clientUuid clientEmail (t_maxDevices t) 0 expiresAt s0 of
                   (Inl err, s1) \<Rightarrow> (Inl err, s1)
                 | (Inr u, s1) \<Rightarrow>
                    (case createSubscription e (pay_telegram_id pmt) (srv_id server) clientUuid clientEmail
                            (t_id t) (toISOString e expiresAt) (t_maxDevices t) 0 s1 of
                       (Inl err, s2) \<Rightarrow> (Inl err, s2)
                     | (Inr sub, s2) \<Rightarrow>
                        (let s3 = completePayment e (pay_id pmt) s2;
                             s4 = (if t_id t = ''trial'' then markTrialUsed (pay_telegram_id pmt) s3 else s3);
                             label = ''VPN-'' @ map upper_char (srv_code server) @ ''-'' @ show_nat (sub_id sub)
                         in case buildVlessLink e (srv_code server) clientUuid label of
                              Inl err \<Rightarrow> (Inl err, s4)
                            | Inr link \<Rightarrow>
                               if \<not> tg_ok e (pay_telegram_id pmt) then (Inl TelegramError, s4)
                               else (Inr (),
                                     emit (Log ''Subscription activated'')
                                       (emit (SendMessage (pay_telegram_id pmt))
                                          (emit (SendMessage (pay_telegram_id pmt)) s4))))))))"

text \<open>
  \<open>pollPendingPayments\<close> reads the pending rows once and then walks that list; between
  the read and each activation lies \<open>await checkYooMoneyPayment\<close>. The two parts are
  separate functions, so that another task can run between them.
\<close>

fun pollLoop :: "env \<Rightarrow> payment list \<Rightarrow> state \<Rightarrow> state" where
  "pollLoop e [] s = s"
| "pollLoop e (pmt # rest) s =
     (case pay_invoice_id pmt of
        None \<Rightarrow> pollLoop e rest s
      | Some label \<Rightarrow>
          if label = [] then pollLoop e rest s
          else if checkYooMoneyPayment e label then
            (case activateSubscription e pmt (emit (Log ''Polling: payment confirmed'') s) of
               (Inl err, s1) \<Rightarrow> pollLoop e rest (emit (Log ''Polling check failed'') s1)
             | (Inr u, s1) \<Rightarrow> pollLoop e rest s1)
          else pollLoop e rest s)"

definition pollPendingPayments :: "env \<Rightarrow> state \<Rightarrow> state" where
  "pollPendingPayments e s = pollLoop e (getPendingPayments s) s"

section \<open>handlers.ts\<close>

text \<open>The part of the Telegraf context the handlers read.\<close>

record ctx =
  cb_data :: "string option"
  from_id :: "int option"

text \<open>\<open>data.split(':')\<close>.\<close>

fun split_colon :: "string \<Rightarrow> string list" where
  "split_colon [] = [[]]"
| "split_colon (c # cs) =
     (if c = CHR '':'' then [] # split_colon cs
      else (case split_colon cs of
              [] \<Rightarrow> [[c]]
            | (w # ws) \<Rightarrow> (c # w) # ws))"

definition at :: "'a list \<Rightarrow> nat \<Rightarrow> 'a option" where
  "at xs i = (if i < length xs then Some (xs ! i) else None)"

text \<open>\<open>data.replace(pat, '')\<close> with a text pattern: the first occurrence is removed.\<close>

fun remove_first :: "string \<Rightarrow> string \<Rightarrow> string" where
  "remove_first pat [] = []"
| "remove_first pat (c # cs) =
     (if take (length pat) (c # cs) = pat then drop (length pat) (c # cs)
      else c # remove_first pat cs)"

text \<open>
  \<open>handleBuy\<close>. The handler is reached through \<open>bot.action(/^buy:/, ...)\<close>, so the data
  has a second field; a missing third field is \<open>undefined\<close> and matches no tariff. The
  answers to the callback are recorded and taken to succeed.
\<close>

definition handleBuy :: "env \<Rightarrow> ctx \<Rightarrow> state \<Rightarrow> (error + unit) \<times> state" where
  "handleBuy e c s =
     (case cb_data c of
        None \<Rightarrow> (Inr (), s)
      | Some data \<Rightarrow>
     (case from_id c of
        None \<Rightarrow> (Inr (), s)
      | Some from \<Rightarrow>
     (let parts = split_colon data;
          serverCode = (case at parts 1 of None \<Rightarrow> [] | Some x \<Rightarrow> x)
      in case getServerByCode serverCode s of
           None \<Rightarrow> (Inr (), emit (CbAnswer ServerNotFound) s)
         | Some server \<Rightarrow>
        (case (case at parts 2 of None \<Rightarrow> None | Some tariffId \<Rightarrow> getTariff serverCode tariffId) of
           None \<Rightarrow> (Inr (), emit (CbAnswer TariffNotFound) s)
         | Some t \<Rightarrow>
            if salesBlocked s \<and> t_price t > 0 then (Inr (), emit (CbAnswer SalesSuspended) s)
            else if t_id t = ''trial'' then
              (if (case getUser from s of None \<Rightarrow> False | Some u \<Rightarrow> usr_trial_used u = 1)
               then (Inr (), emit (CbAnswer TrialAlreadyUsed) s)
               else (case createPayment e from (t_id t) (srv_id server) 0
                            (''trial_'' @ show_int from @ ''_'' @ show_int (date_now e)) [] s of
                       (Inl err, s1) \<Rightarrow> (Inl err, s1)
                     | (Inr pmt, s1) \<Rightarrow>
                        (case activateSubscription e pmt s1 of
                           (Inl err, s2) \<Rightarrow> (Inl err, s2)
                         | (Inr u, s2) \<Rightarrow> (Inr (), emit (CbAnswer TrialActivated) s2))))
            else
              (let s1 = emit (CbAnswer Plain) s;
                   label = generatePaymentLabel e from serverCode (case at parts 2 of None \<Rightarrow> [] | Some x \<Rightarrow> x)
               in case createPayment e from (t_id t) (srv_id server) (t_price t) label [] s1 of
                    (Inl err, s2) \<Rightarrow> (Inl err, s2)
                  | (Inr pmt, s2) \<Rightarrow> (Inr (), emit (CbAnswer (PayLink label)) s2))))))"

text \<open>
  \<open>handleCheckPayment\<close> in its two parts: up to the status test, and from
  \<open>await checkYooMoneyPayment(label)\<close> on. The second part works on the row the first
  part read.
\<close>

definition checkRead :: "ctx \<Rightarrow> state \<Rightarrow> (string \<times> payment) option \<times> state" where
  "checkRead c s =
     (case cb_data c of
        None \<Rightarrow> (None, s)
      | Some data \<Rightarrow>
     (case from_id c of
        None \<Rightarrow> (None, s)
      | Some from \<Rightarrow>
     (let label = remove_first ''check:'' data
      in case getPaymentByInvoiceId label s of
           None \<Rightarrow> (None, emit (CbAnswer PaymentNotFoundOrProcessed) s)
         | Some pmt \<Rightarrow>
             if pay_status pmt \<noteq> Pending then (None, emit (CbAnswer PaymentNotFoundOrProcessed) s)
             else (Some (label, pmt), emit (CbAnswer Checking) s))))"

definition checkResume :: "env \<Rightarrow> string \<times> payment \<Rightarrow> state \<Rightarrow> (error + unit) \<times> state" where
  "checkResume e lp s =
     (if checkYooMoneyPayment e (fst lp) then activateSubscription e (snd lp) s
      else (Inr (), emit (CbAnswer NotPaidYet) s))"

definition handleCheckPayment :: "env \<Rightarrow> ctx \<Rightarrow> state \<Rightarrow> (error + unit) \<times> state" where
  "handleCheckPayment e c s =
     (case checkRead c s of
        (None, s1) \<Rightarrow> (Inr (), s1)
      | (Some lp, s1) \<Rightarrow> checkResume e lp s1)"

section \<open>cron.ts: the expiry sweep\<close>

text \<open>
  One tick of the first scheduled task: the listing, then for each listed row the
  removal inside its own \<open>try\<close>, the local deactivation, and the notification inside its
  own \<open>try\<close>.
\<close>

fun sweepLoop :: "env \<Rightarrow> (subscription \<times> server_row) list \<Rightarrow> state \<Rightarrow> state" where
  "sweepLoop e [] s = s"
| "sweepLoop e (r # rest) s =
     (let s1 = (case removeClient e (srv_code (snd r)) (sub_client_uuid (fst r)) s of
                  (Inl err, s') \<Rightarrow> emit (Log ''Failed to remove expired client'') s'
                | (Inr u, s') \<Rightarrow> s');
          s2 = deactivateSubscription (sub_id (fst r)) s1;
          s3 = (if tg_ok e (sub_telegram_id (fst r)) then emit (SendMessage (sub_telegram_id (fst r))) s2 else s2);
          s4 = emit (Log ''Expired subscription deactivated'') s3
      in sweepLoop e rest s4)"

definition expirySweep :: "env \<Rightarrow> state \<Rightarrow> state" where
  "expirySweep e s = sweepLoop e (getExpiredSubscriptions e s) s"

section \<open>Reading the state and the trace\<close>

text \<open>Two states with the same tables, sequences and module variables.\<close>

definition same_db :: "state \<Rightarrow> state \<Rightarrow> bool" where
  "same_db s s' =
     (servers s' = servers s \<and> users s' = users s \<and> subscriptions s' = subscriptions s \<and>
      payments s' = payments s \<and> sub_seq s' = sub_seq s \<and> pay_seq s' = pay_seq s \<and>
      salesBlocked s' = salesBlocked s \<and> bot_set s' = bot_set s \<and> uuids s' = uuids s)"

fun is_login :: "event \<Rightarrow> bool" where
  "is_login (LoginCall c) = True"
| "is_login ev = False"

fun is_call :: "event \<Rightarrow> bool" where
  "is_call (ApiCall m u c) = True"
| "is_call ev = False"

fun is_sleep :: "event \<Rightarrow> bool" where
  "is_sleep (Sleep ms) = True"
| "is_sleep ev = False"

fun is_fetch :: "event \<Rightarrow> bool" where
  "is_fetch (Fetch rq) = True"
| "is_fetch ev = False"

text \<open>How often \<open>login\<close> and \<open>doRequest\<close> have been entered so far.\<close>

definition logins :: "state \<Rightarrow> nat" where
  "logins s = length (filter is_login (trace s))"

definition calls :: "state \<Rightarrow> nat" where
  "calls s = length (filter is_call (trace s))"

section \<open>The pool of probes, for the proofs\<close>

text \<open>
  For the proofs about the pool. Probe i of a run that started when \<open>k0\<close> fetches had been
  made: whether its first fetch was rejected, and what a fetch says about liveness.
\<close>

definition first_failed :: "env \<Rightarrow> nat \<Rightarrow> nat \<Rightarrow> bool" where
  "first_failed e k0 i = (case net e (k0 + i) of NetFail m \<Rightarrow> True | Reply r \<Rightarrow> False)"

definition outcome_ok :: "env \<Rightarrow> nat \<Rightarrow> bool" where
  "outcome_ok e k = (case net e k of Reply r \<Rightarrow> res_ok r \<or> status r = 302 | NetFail m \<Rightarrow> False)"

fun has_retried :: "probe \<Rightarrow> bool" where
  "has_retried (Await2 c srv k) = True"
| "has_retried Finished = True"
| "has_retried p = False"

fun steps_left :: "probe \<Rightarrow> nat" where
  "steps_left (Await1 c srv k) = 3"
| "steps_left (Sleeping c srv) = 2"
| "steps_left (Await2 c srv k) = 1"
| "steps_left Finished = 0"

definition retried :: "env \<Rightarrow> nat \<Rightarrow> probe list \<Rightarrow> nat set" where
  "retried e k0 ps = {i. i < length ps \<and> first_failed e k0 i \<and> has_retried (ps ! i)}"

text \<open>
  What holds of probe i in each of its states, \<open>g i\<close> being the number of its second
  fetch; and what holds of the pool throughout a run: the second fetches made so far are
  numbered, one to one, from \<open>k0 + n\<close> up to the current count.
\<close>

fun probe_good ::
  "env \<Rightarrow> string list \<Rightarrow> nat \<Rightarrow> (nat \<Rightarrow> nat) \<Rightarrow> (string \<rightharpoonup> bool) \<Rightarrow> nat \<Rightarrow> probe \<Rightarrow> bool" where
  "probe_good e cs k0 g results i (Await1 c srv k) = (c = cs ! i \<and> k = k0 + i)"
| "probe_good e cs k0 g results i (Sleeping c srv) = (c = cs ! i \<and> first_failed e k0 i)"
| "probe_good e cs k0 g results i (Await2 c srv k) = (c = cs ! i \<and> first_failed e k0 i \<and> k = g i)"
| "probe_good e cs k0 g results i Finished =
     (cs ! i \<in> dom results \<and>
      (distinct cs \<longrightarrow>
         results (cs ! i) = Some (outcome_ok e (if first_failed e k0 i then g i else k0 + i))))"

definition pool_inv ::
  "env \<Rightarrow> string list \<Rightarrow> nat \<Rightarrow> (nat \<Rightarrow> nat) \<Rightarrow> probe list \<Rightarrow> (string \<rightharpoonup> bool) \<Rightarrow> state \<Rightarrow> bool" where
  "pool_inv e cs k0 g ps results s =
     (length ps = length cs \<and> dom results \<subseteq> set cs \<and> k0 + length cs \<le> fetches s \<and>
      (\<forall>i < length cs. probe_good e cs k0 g results i (ps ! i)) \<and>
      inj_on g (retried e k0 ps) \<and> g ` retried e k0 ps = {k0 + length cs ..< fetches s})"

section \<open>Concrete inputs\<close>

definition cfg_ru :: server_cfg where
  "cfg_ru = \<lparr>cfg_code = ''ru'', cfg_panelUrl = ''https://panel.example'', cfg_panelUsername = ''admin'',
     cfg_panelPassword = ''secret'', cfg_inboundId = 1, cfg_serverIp = ''203.0.113.7'',
     cfg_serverPort = 443, cfg_publicKey = ''PBK'', cfg_shortId = ''ab12'', cfg_sni = ''example.com''\<rparr>"

definition srv_ru :: server_row where
  "srv_ru = \<lparr>srv_id = 1, srv_code = ''ru'', srv_inbound_id = 1, srv_is_active = 1\<rparr>"

definition user42 :: user_row where
  "user42 = \<lparr>usr_telegram_id = 42, usr_is_blocked = 0, usr_trial_used = 0\<rparr>"

definition pay1 :: payment where
  "pay1 = \<lparr>pay_id = 1, pay_telegram_id = 42, pay_tariff_id = ''month'', pay_server_id = 1,
     pay_amount = 150, pay_status = Pending, pay_invoice_id = Some ''pay_1'',
     pay_payload = Some [], pay_created_at = 0, pay_completed_at = None\<rparr>"

text \<open>A reply of the panel with the given status and body, and one that sets a cookie.\<close>

definition reply :: "nat \<Rightarrow> payload \<Rightarrow> fetch_outcome" where
  "reply st b = Reply \<lparr>status = st, set_cookie = None, body = b\<rparr>"

definition reply_cookie :: "string \<Rightarrow> fetch_outcome" where
  "reply_cookie c = Reply \<lparr>status = 200, set_cookie = Some c, body = NotJson\<rparr>"

text \<open>A network that answers the listed outcomes in turn and is down afterwards.\<close>

definition script :: "fetch_outcome list \<Rightarrow> nat \<Rightarrow> fetch_outcome" where
  "script outs k = (if k < length outs then outs ! k else NetFail ''down'')"

definition iso_table :: "int \<Rightarrow> string" where
  "iso_table ms =
     (if ms = 1796126400000 then ''2026-12-01T12:00:00.000Z''
      else if ms = 1793620800000 then ''2026-11-02T12:00:00.000Z''
      else if ms = 1793527200000 then ''2026-11-01T10:00:00.000Z''
      else ''1970-01-01T00:00:00.000Z'')"

text \<open>
  The first of November 2026, 12:00:00 UTC; a network that is down; a gateway that
  reports every label as paid.
\<close>

definition env0 :: env where
  "env0 = \<lparr>cfg_servers = [cfg_ru], yoomoneyToken = ''token'', net = script [],
     gateway = (\<lambda>l. GwReply (Some [''success''])), date_now = 1793534400000, sql_now = 1793534400,
     sql_now_text = ''2026-11-01 12:00:00'', toISOString = iso_table,
     uuidv4 = (\<lambda>k. if k = 0 then ''11111111-1111-4111-8111-111111111111''
                     else ''22222222-2222-4222-8222-222222222222''),
     rand_hex = ''0a1b2c3d'', tg_ok = (\<lambda>c. True)\<rparr>"

text \<open>The same with a panel that accepts the next two requests.\<close>

definition ok_reply :: fetch_outcome where
  "ok_reply = reply 200 (Json True None JNull)"

definition env_ok :: env where
  "env_ok = env0\<lparr>net := script [ok_reply, ok_reply]\<rparr>"

definition state0 :: state where
  "state0 = \<lparr>servers = [srv_ru], users = [user42], subscriptions = [], payments = [],
     sub_seq = 0, pay_seq = 0, sessions = [(''ru'', ''3x-ui=abc'')], salesBlocked = False,
     bot_set = True, fetches = 0, uuids = 0, trace = []\<rparr>"

text \<open>One pending payment of user 42 for a month on server 1.\<close>

definition state1 :: state where
  "state1 = state0\<lparr>payments := [pay1], pay_seq := 1\<rparr>"

definition probe_rq :: request where
  "probe_rq = \<lparr>req_method = ''GET'', req_url = ''https://panel.example/'', req_cookie = None,
     req_body = NoBody, req_timeout = None\<rparr>"

definition env_401 :: env where
  "env_401 = env0\<lparr>net := script [reply 401 NotJson, reply_cookie ''3x-ui=new; Path=/'', ok_reply]\<rparr>"

definition env_500 :: env where
  "env_500 = env0\<lparr>net := script [reply 500 NotJson]\<rparr>"

definition sub_due :: subscription where
  "sub_due = \<lparr>sub_id = 1, sub_telegram_id = 42, sub_server_id = 1,
     sub_client_uuid = ''11111111-1111-4111-8111-111111111111'',
     sub_client_email = ''tg_42_ru_11111111'', sub_tariff_id = ''trial'',
     sub_expires_at = ''2026-11-01T10:00:00.000Z'', sub_max_devices = 1, sub_traffic_limit = 0,
     sub_traffic_used = 0, sub_is_active = 1, sub_created_at = 1793440800\<rparr>"

definition state_due :: state where
  "state_due = state0\<lparr>subscriptions := [sub_due], sub_seq := 1\<rparr>"

definition ctx_check :: ctx where
  "ctx_check = \<lparr>cb_data = Some ''check:pay_1'', from_id = Some 42\<rparr>"

definition ctx_trial :: ctx where
  "ctx_trial = \<lparr>cb_data = Some ''buy:ru:trial'', from_id = Some 42\<rparr>"

definition ctx_month :: ctx where
  "ctx_month = \<lparr>cb_data = Some ''buy:ru:month'', from_id = Some 42\<rparr>"

definition state_blocked :: state where
  "state_blocked = state0\<lparr>salesBlocked := True\<rparr>"

definition cfg_nl :: server_cfg where
  "cfg_nl = \<lparr>cfg_code = ''nl'', cfg_panelUrl = ''https://nl.example'', cfg_panelUsername = ''admin'',
     cfg_panelPassword = ''secret'', cfg_inboundId = 2, cfg_serverIp = ''198.51.100.9'',
     cfg_serverPort = 443, cfg_publicKey = ''PBK2'', cfg_shortId = ''cd34'', cfg_sni = ''example.org''\<rparr>"

text \<open>Two panels; the fetches of the process are rejected, answered 200, rejected, rejected.\<close>

definition env_two :: env where
  "env_two = env0\<lparr>cfg_servers := [cfg_ru, cfg_nl],
                  net := script [NetFail ''reset'', reply 200 NotJson, NetFail ''reset'', NetFail ''reset'']\<rparr>"

section \<open>Verified properties\<close>

subsection \<open>Unfolding by name\<close>

lemmas panel_defs = fetchWithRetry_def fetchLoop.simps emit_def Let_def getServerConfig_def
  login_def ensureSession_def doRequest_def unwrap_def apiRequest_def addClient_def removeClient_def
  getClientTraffic_def healthCheck_def res_ok_def session_set_def or0_def

lemmas store_defs = getServers_def getServerByCode_def getServerById_def getUser_def markTrialUsed_def
  fk_ok_def createSubscription_def joined_def getActiveSubscriptions_def getExpiredSubscriptions_def
  deactivateSubscription_def createPayment_def getPendingPayments_def getPaymentByInvoiceId_def
  completePayment_def expireOldPayments_def ruTariffs_def nlTariffs_def serverTariffs_def getTariff_def

lemmas input_defs = cfg_ru_def srv_ru_def user42_def pay1_def reply_def reply_cookie_def script_def
  iso_table_def env0_def ok_reply_def env_ok_def state0_def state1_def

lemmas flow_defs = buildVlessLink_def toggleSales_def checkYooMoneyPayment_def generatePaymentLabel_def
  expiryMs_def tgEmail_def activateSubscription_def pollPendingPayments_def handleBuy_def checkRead_def
  checkResume_def handleCheckPayment_def expirySweep_def at_def show_int_def show_nat.simps

subsection \<open>What the network operations leave alone\<close>

text \<open>
  The session client and the provisioning operations touch the session cache, the fetch
  counter and the trace only; tables, sequences and module variables stay as they are.
\<close>

lemma same_db_refl [simp]: "same_db s s"
  by (simp add: same_db_def)

lemma same_db_emit [simp]: "same_db s (emit ev s')  = same_db s s'"
  by (simp add: same_db_def emit_def)

lemma same_db_fetches [simp]: "same_db s (s'\<lparr>fetches := k\<rparr>) = same_db s s'"
  by (simp add: same_db_def)

lemma same_db_sessions [simp]: "same_db s (s'\<lparr>sessions := k\<rparr>) = same_db s s'"
  by (simp add: same_db_def)

lemma fetchLoop_same_db:
  "fetchLoop e rq n a le s = (r, s') \<Longrightarrow> same_db s0 s \<Longrightarrow> same_db s0 s'"
proof (induction e rq n a le s rule: fetchLoop.induct)
  case (1 e rq retries attempt lastError s)
  show ?case
  proof (cases "attempt < retries")
    case False
    with "1.prems" show ?thesis by (simp add: fetchLoop.simps)
  next
    case True
    show ?thesis
    proof (cases "net e (fetches s)")
      case (Reply x)
      with True "1.prems" show ?thesis by (auto simp add: fetchLoop.simps[of e rq retries attempt] Let_def)
    next
      case (NetFail m)
      with True "1.prems" "1.IH"[OF True refl NetFail] show ?thesis
        by (auto simp add: fetchLoop.simps[of e rq retries attempt] Let_def split: if_splits)
    qed
  qed
qed

lemma fetchWithRetry_same_db:
  "fetchWithRetry e rq n s = (r, s') \<Longrightarrow> same_db s0 s \<Longrightarrow> same_db s0 s'"
  unfolding fetchWithRetry_def by (rule fetchLoop_same_db)

lemma login_same_db:
  "login e code s = (r, s') \<Longrightarrow> same_db s0 s \<Longrightarrow> same_db s0 s'"
  unfolding login_def Let_def
  by (auto split: sum.splits prod.splits if_splits option.splits
           dest!: fetchWithRetry_same_db[where ?s0.0 = s0])

lemma ensureSession_same_db:
  "ensureSession e code s = (r, s') \<Longrightarrow> same_db s0 s \<Longrightarrow> same_db s0 s'"
  unfolding ensureSession_def
  by (auto split: option.splits if_splits dest: login_same_db)

lemma doRequest_same_db:
  "doRequest e m u b c s = (r, s') \<Longrightarrow> same_db s0 s \<Longrightarrow> same_db s0 s'"
  unfolding doRequest_def
  by (auto dest!: fetchWithRetry_same_db[where ?s0.0 = s0])

lemma apiRequest_same_db:
  "apiRequest e code m p b s = (r, s') \<Longrightarrow> same_db s0 s \<Longrightarrow> same_db s0 s'"
  unfolding apiRequest_def Let_def
  by (auto split: sum.splits prod.splits if_splits
           dest!: ensureSession_same_db[where ?s0.0 = s0] doRequest_same_db[where ?s0.0 = s0]
                  login_same_db[where ?s0.0 = s0])

lemma addClient_same_db:
  "addClient e code u em l tb ex s = (r, s') \<Longrightarrow> same_db s0 s \<Longrightarrow> same_db s0 s'"
  unfolding addClient_def
  by (auto split: sum.splits prod.splits dest!: apiRequest_same_db[where ?s0.0 = s0])

lemma removeClient_same_db:
  "removeClient e code u s = (r, s') \<Longrightarrow> same_db s0 s \<Longrightarrow> same_db s0 s'"
  unfolding removeClient_def
  by (auto split: sum.splits prod.splits dest!: apiRequest_same_db[where ?s0.0 = s0])

lemma same_db_uuids: "same_db (s\<lparr>uuids := k\<rparr>) s' \<Longrightarrow>
   subscriptions s' = subscriptions s \<and> payments s' = payments s \<and> users s' = users s \<and> servers s' = servers s"
  by (simp add: same_db_def)


subsection \<open>Stale payments\<close>

text \<open>
  C5 (as it stands, refuted at the boundary). The claim has \<open>expireOldPayments\<close> expire
  exactly the pending payments whose age is over 24 hours. A pending payment whose age is
  24 hours to the second is not over 24 hours old, and the update expires it: the
  cut-off test is \<open>created_at <= now - 24h\<close>.
\<close>

theorem expireOldPayments_boundary_counterexample:
  "payments (snd (expireOldPayments (env0\<lparr>sql_now := 86400\<rparr>) (state0\<lparr>payments := [pay1]\<rparr>)))
      = [pay1\<lparr>pay_status := Expired\<rparr>]
   \<and> fst (expireOldPayments (env0\<lparr>sql_now := 86400\<rparr>) (state0\<lparr>payments := [pay1]\<rparr>)) = 1
   \<and> pay_status pay1 = Pending
   \<and> \<not> (sql_now (env0\<lparr>sql_now := 86400\<rparr>) - pay_created_at pay1 > 86400)"
  by (simp add: expireOldPayments_def env0_def state0_def pay1_def)

text \<open>
  C5 (amended). \<open>expireOldPayments\<close> sets to expired exactly the payments that are
  pending and at least 24 hours old, leaves every other payment row and the rest of the
  state as they were, returns the number of rows it changed, and run again at once
  changes nothing and returns 0.
\<close>

theorem expireOldPayments_spec:
  "expireOldPayments e s = (n, s') \<Longrightarrow>
     s' = s\<lparr>payments := payments s'\<rparr> \<and>
     length (payments s') = length (payments s) \<and>
     (\<forall>i < length (payments s). payments s' ! i =
        (if pay_status (payments s ! i) = Pending \<and> 86400 \<le> sql_now e - pay_created_at (payments s ! i)
         then (payments s ! i)\<lparr>pay_status := Expired\<rparr> else payments s ! i)) \<and>
     n = length (filter (\<lambda>p. pay_status p = Pending \<and> 86400 \<le> sql_now e - pay_created_at p) (payments s)) \<and>
     expireOldPayments e s' = (0, s')"
  unfolding expireOldPayments_def Let_def
  apply clarsimp
  apply (intro conjI)
  subgoal by (rule arg_cong[where f=length], rule filter_cong) auto
  subgoal by (auto simp: filter_empty_conv intro: map_idI)
  done

theorem expireOldPayments_spec_witness:
  "expireOldPayments (env0\<lparr>sql_now := 90000\<rparr>) (state0\<lparr>payments := [pay1, pay1\<lparr>pay_id := 2, pay_created_at := 50000\<rparr>]\<rparr>)
     = (1, state0\<lparr>payments := [pay1\<lparr>pay_status := Expired\<rparr>, pay1\<lparr>pay_id := 2, pay_created_at := 50000\<rparr>]\<rparr>)
   \<and> expireOldPayments (env0\<lparr>sql_now := 90000\<rparr>)
        (state0\<lparr>payments := [pay1\<lparr>pay_status := Expired\<rparr>, pay1\<lparr>pay_id := 2, pay_created_at := 50000\<rparr>]\<rparr>)
     = (0, state0\<lparr>payments := [pay1\<lparr>pay_status := Expired\<rparr>, pay1\<lparr>pay_id := 2, pay_created_at := 50000\<rparr>]\<rparr>)"
proof -
  have run: "expireOldPayments (env0\<lparr>sql_now := 90000\<rparr>)
               (state0\<lparr>payments := [pay1, pay1\<lparr>pay_id := 2, pay_created_at := 50000\<rparr>]\<rparr>)
             = (1, state0\<lparr>payments := [pay1\<lparr>pay_status := Expired\<rparr>, pay1\<lparr>pay_id := 2, pay_created_at := 50000\<rparr>]\<rparr>)"
    by (simp add: expireOldPayments_def env0_def state0_def pay1_def)
  from expireOldPayments_spec [OF run] show ?thesis using run by simp
qed

subsection \<open>Activation\<close>

text \<open>
  C1. In \<open>activateSubscription\<close> the call of \<open>addClient\<close> comes before every write.
  When that call fails, the activation returns its error and leaves the subscriptions,
  the payments and the users as they were. Conversely, whenever an activation has
  changed the subscriptions or the payments, its \<open>addClient\<close> call had succeeded.
\<close>

theorem activateSubscription_provision_first:
  assumes run: "activateSubscription e pmt s = (r, s')"
  shows "(\<forall>server t err s1.
            bot_set s \<longrightarrow> getServerById (pay_server_id pmt) s = Some server \<longrightarrow>
            getTariff (srv_code server) (pay_tariff_id pmt) = Some t \<longrightarrow>
            addClient e (srv_code server) (uuidv4 e (uuids s))
               (tgEmail (pay_telegram_id pmt) (srv_code server) (uuidv4 e (uuids s)))
               (t_maxDevices t) 0 (expiryMs e t) (s\<lparr>uuids := uuids s + 1\<rparr>) = (Inl err, s1) \<longrightarrow>
            r = Inl err \<and> s' = s1 \<and> subscriptions s' = subscriptions s \<and> payments s' = payments s
              \<and> users s' = users s)
       \<and> ((subscriptions s' \<noteq> subscriptions s \<or> payments s' \<noteq> payments s) \<longrightarrow>
            (\<exists>server t s1.
               bot_set s \<and> getServerById (pay_server_id pmt) s = Some server \<and>
               getTariff (srv_code server) (pay_tariff_id pmt) = Some t \<and>
               addClient e (srv_code server) (uuidv4 e (uuids s))
                 (tgEmail (pay_telegram_id pmt) (srv_code server) (uuidv4 e (uuids s)))
                 (t_maxDevices t) 0 (expiryMs e t) (s\<lparr>uuids := uuids s + 1\<rparr>) = (Inr (), s1)))"
proof (rule conjI)
 show "\<forall>server t err s1.
            bot_set s \<longrightarrow> getServerById (pay_server_id pmt) s = Some server \<longrightarrow>
            getTariff (srv_code server) (pay_tariff_id pmt) = Some t \<longrightarrow>
            addClient e (srv_code server) (uuidv4 e (uuids s))
               (tgEmail (pay_telegram_id pmt) (srv_code server) (uuidv4 e (uuids s)))
               (t_maxDevices t) 0 (expiryMs e t) (s\<lparr>uuids := uuids s + 1\<rparr>) = (Inl err, s1) \<longrightarrow>
            r = Inl err \<and> s' = s1 \<and> subscriptions s' = subscriptions s \<and> payments s' = payments s
              \<and> users s' = users s"
 proof (intro allI impI)
  fix server t err s1
  assume b: "bot_set s" and sv: "getServerById (pay_server_id pmt) s = Some server"
    and tf: "getTariff (srv_code server) (pay_tariff_id pmt) = Some t"
    and ac: "addClient e (srv_code server) (uuidv4 e (uuids s))
               (tgEmail (pay_telegram_id pmt) (srv_code server) (uuidv4 e (uuids s)))
               (t_maxDevices t) 0 (expiryMs e t) (s\<lparr>uuids := uuids s + 1\<rparr>) = (Inl err, s1)"
  from run b sv tf ac have rs: "r = Inl err" "s' = s1"
    by (simp_all add: activateSubscription_def Let_def)
  from addClient_same_db[OF ac same_db_refl] have "same_db (s\<lparr>uuids := uuids s + 1\<rparr>) s1" .
  from same_db_uuids[OF this] rs
  show "r = Inl err \<and> s' = s1 \<and> subscriptions s' = subscriptions s \<and> payments s' = payments s
              \<and> users s' = users s" by simp
 qed
next
 show "(subscriptions s' \<noteq> subscriptions s \<or> payments s' \<noteq> payments s) \<longrightarrow>
            (\<exists>server t s1.
               bot_set s \<and> getServerById (pay_server_id pmt) s = Some server \<and>
               getTariff (srv_code server) (pay_tariff_id pmt) = Some t \<and>
               addClient e (srv_code server) (uuidv4 e (uuids s))
                 (tgEmail (pay_telegram_id pmt) (srv_code server) (uuidv4 e (uuids s)))
                 (t_maxDevices t) 0 (expiryMs e t) (s\<lparr>uuids := uuids s + 1\<rparr>) = (Inr (), s1))"
 proof (rule impI)
  assume ch: "subscriptions s' \<noteq> subscriptions s \<or> payments s' \<noteq> payments s"
  show "\<exists>server t s1.
               bot_set s \<and> getServerById (pay_server_id pmt) s = Some server \<and>
               getTariff (srv_code server) (pay_tariff_id pmt) = Some t \<and>
               addClient e (srv_code server) (uuidv4 e (uuids s))
                 (tgEmail (pay_telegram_id pmt) (srv_code server) (uuidv4 e (uuids s)))
                 (t_maxDevices t) 0 (expiryMs e t) (s\<lparr>uuids := uuids s + 1\<rparr>) = (Inr (), s1)"
  proof (cases "bot_set s")
    case False
    with run ch show ?thesis by (simp add: activateSubscription_def)
  next
    case b: True
    show ?thesis
    proof (cases "getServerById (pay_server_id pmt) s")
      case None
      with run ch b show ?thesis by (auto simp add: activateSubscription_def emit_def)
    next
      case (Some server)
      note sv = this
      show ?thesis
      proof (cases "getTariff (srv_code server) (pay_tariff_id pmt)")
        case None
        with run ch b sv show ?thesis by (auto simp add: activateSubscription_def emit_def)
      next
        case (Some t)
        note tf = this
        obtain ra s1 where ac: "addClient e (srv_code server) (uuidv4 e (uuids s))
                 (tgEmail (pay_telegram_id pmt) (srv_code server) (uuidv4 e (uuids s)))
                 (t_maxDevices t) 0 (expiryMs e t) (s\<lparr>uuids := uuids s + 1\<rparr>) = (ra, s1)"
          by (cases "addClient e (srv_code server) (uuidv4 e (uuids s))
                 (tgEmail (pay_telegram_id pmt) (srv_code server) (uuidv4 e (uuids s)))
                 (t_maxDevices t) 0 (expiryMs e t) (s\<lparr>uuids := uuids s + 1\<rparr>)") auto
        show ?thesis
        proof (cases ra)
          case (Inl err)
          with run b sv tf ac have "s' = s1" by (simp add: activateSubscription_def Let_def)
          moreover from addClient_same_db[OF ac same_db_refl] have "same_db (s\<lparr>uuids := uuids s + 1\<rparr>) s1" .
          ultimately show ?thesis using ch same_db_uuids by blast
        next
          case (Inr u)
          with b sv tf ac show ?thesis by auto
        qed
      qed
    qed
  qed
 qed
qed

theorem activateSubscription_provision_first_witness:
  "fst (activateSubscription env0 pay1 state1) = Inl (Transport ''down'')
   \<and> subscriptions (snd (activateSubscription env0 pay1 state1)) = []
   \<and> payments (snd (activateSubscription env0 pay1 state1)) = [pay1]
   \<and> subscriptions (snd (activateSubscription env_ok pay1 state1)) \<noteq> []
   \<and> (\<exists>server t s1.
         bot_set state1 \<and> getServerById (pay_server_id pay1) state1 = Some server \<and>
         getTariff (srv_code server) (pay_tariff_id pay1) = Some t \<and>
         addClient env_ok (srv_code server) (uuidv4 env_ok (uuids state1))
           (tgEmail (pay_telegram_id pay1) (srv_code server) (uuidv4 env_ok (uuids state1)))
           (t_maxDevices t) 0 (expiryMs env_ok t) (state1\<lparr>uuids := uuids state1 + 1\<rparr>) = (Inr (), s1))"
proof -
  let ?t = "\<lparr>t_id = ''month'', t_price = 150, t_days = 30, t_minutes = None, t_maxDevices = 3\<rparr>"
  let ?rq = "addClient env0 (srv_code srv_ru) (uuidv4 env0 (uuids state1))
               (tgEmail (pay_telegram_id pay1) (srv_code srv_ru) (uuidv4 env0 (uuids state1)))
               (t_maxDevices ?t) 0 (expiryMs env0 ?t) (state1\<lparr>uuids := uuids state1 + 1\<rparr>)"
  have run: "activateSubscription env0 pay1 state1
               = (fst (activateSubscription env0 pay1 state1), snd (activateSubscription env0 pay1 state1))"
    by simp
  have b: "bot_set state1" by (simp add: input_defs)
  have sv: "getServerById (pay_server_id pay1) state1 = Some srv_ru"
    by (simp add: input_defs store_defs)
  have tf: "getTariff (srv_code srv_ru) (pay_tariff_id pay1) = Some ?t"
    by (simp add: input_defs store_defs)
  have "fst ?rq = Inl (Transport ''down'')"
    by (simp add: input_defs panel_defs)
  then have ac: "?rq = (Inl (Transport ''down''), snd ?rq)"
    by (simp add: prod_eq_iff)
  have st: "subscriptions state1 = []" "payments state1 = [pay1]"
    by (simp_all add: input_defs)
  have fails: "fst (activateSubscription env0 pay1 state1) = Inl (Transport ''down'')
     \<and> subscriptions (snd (activateSubscription env0 pay1 state1)) = []
     \<and> payments (snd (activateSubscription env0 pay1 state1)) = [pay1]"
  proof -
    note w = activateSubscription_provision_first [OF run, THEN conjunct1, rule_format, OF b sv tf ac]
    from w have "fst (activateSubscription env0 pay1 state1) = Inl (Transport ''down'')"
      and "subscriptions (snd (activateSubscription env0 pay1 state1)) = subscriptions state1"
      and "payments (snd (activateSubscription env0 pay1 state1)) = payments state1"
      by blast+
    with st show ?thesis by simp
  qed
  have run2: "activateSubscription env_ok pay1 state1
               = (fst (activateSubscription env_ok pay1 state1), snd (activateSubscription env_ok pay1 state1))"
    by simp
  have ch: "subscriptions (snd (activateSubscription env_ok pay1 state1)) \<noteq> []"
    by (simp add: input_defs panel_defs store_defs flow_defs)
  then have "subscriptions (snd (activateSubscription env_ok pay1 state1)) \<noteq> subscriptions state1
             \<or> payments (snd (activateSubscription env_ok pay1 state1)) \<noteq> payments state1"
    using st by simp
  from activateSubscription_provision_first [OF run2, THEN conjunct2, rule_format, OF this]
  have "\<exists>server t s1.
         bot_set state1 \<and> getServerById (pay_server_id pay1) state1 = Some server \<and>
         getTariff (srv_code server) (pay_tariff_id pay1) = Some t \<and>
         addClient env_ok (srv_code server) (uuidv4 env_ok (uuids state1))
           (tgEmail (pay_telegram_id pay1) (srv_code server) (uuidv4 env_ok (uuids state1)))
           (t_maxDevices t) 0 (expiryMs env_ok t) (state1\<lparr>uuids := uuids state1 + 1\<rparr>) = (Inr (), s1)" .
  with fails ch show ?thesis by blast
qed

subsection \<open>The session client\<close>

text \<open>Counting the entries of \<open>login\<close> and \<open>doRequest\<close> in the trace.\<close>

lemma logins_emit [simp]: "logins (emit ev s) = (if is_login ev then logins s + 1 else logins s)"
  by (simp add: logins_def emit_def)

lemma calls_emit [simp]: "calls (emit ev s) = (if is_call ev then calls s + 1 else calls s)"
  by (simp add: calls_def emit_def)

lemma counts_fetches [simp]:
  "logins (s\<lparr>fetches := k\<rparr>) = logins s" "calls (s\<lparr>fetches := k\<rparr>) = calls s"
  by (simp_all add: logins_def calls_def)

lemma counts_sessions [simp]:
  "logins (s\<lparr>sessions := m\<rparr>) = logins s" "calls (s\<lparr>sessions := m\<rparr>) = calls s"
  by (simp_all add: logins_def calls_def)

lemma fetchLoop_counts:
  "fetchLoop e rq n a le s = (r, s') \<Longrightarrow> logins s' = logins s \<and> calls s' = calls s"
proof (induction e rq n a le s rule: fetchLoop.induct)
  case (1 e rq retries attempt lastError s)
  show ?case
  proof (cases "attempt < retries")
    case False
    with "1.prems" show ?thesis by (simp add: fetchLoop.simps)
  next
    case True
    show ?thesis
    proof (cases "net e (fetches s)")
      case (Reply x)
      with True "1.prems" show ?thesis
        by (auto simp add: fetchLoop.simps[of e rq retries attempt] Let_def)
    next
      case (NetFail m)
      with True "1.prems" "1.IH"[OF True refl NetFail] show ?thesis
        by (auto simp add: fetchLoop.simps[of e rq retries attempt] Let_def split: if_splits)
    qed
  qed
qed

lemma login_counts:
  "login e code s = (r, s') \<Longrightarrow> logins s' = logins s + 1 \<and> calls s' = calls s"
  unfolding login_def Let_def fetchWithRetry_def
  by (auto split: sum.splits prod.splits if_splits option.splits dest!: fetchLoop_counts)

lemma doRequest_counts:
  "doRequest e m u b c s = (r, s') \<Longrightarrow> logins s' = logins s \<and> calls s' = calls s + 1"
  unfolding doRequest_def fetchWithRetry_def
  by (auto dest!: fetchLoop_counts)

text \<open>
  C3. Take a call of \<open>apiRequest\<close> whose first request got a response. If its status is
  not 401, that response decides the call and no second request is made. If it is 401,
  \<open>login\<close> is entered exactly once more; when that login fails the call fails with the
  login's error, and when it succeeds the request is made exactly once more and its
  response decides the call, whatever its status. A response decides the call through
  \<open>unwrap\<close>: a status outside 2xx (a second 401 included) and an envelope with
  \<open>success: false\<close> are errors, anything else is the envelope's \<open>obj\<close>.
\<close>

theorem apiRequest_reauth_once:
  assumes cfg: "getServerConfig e code = Inr srv"
      and ens: "ensureSession e code s = (Inr cookie, s1)"
      and req: "doRequest e method (cfg_panelUrl srv @ path) bdy cookie s1 = (Inr res, s2)"
      and run: "apiRequest e code method path bdy s = (r, s')"
  shows "(status res \<noteq> 401 \<longrightarrow>
            r = unwrap code res \<and> s' = s2 \<and> logins s' = logins s1 \<and> calls s' = calls s1 + 1)
       \<and> (status res = 401 \<longrightarrow>
            logins s' = logins s1 + 1 \<and>
            (\<forall>err s3. login e code (emit (Log ''Session expired, re-logging in'') s2) = (Inl err, s3) \<longrightarrow>
                 r = Inl err \<and> s' = s3 \<and> calls s' = calls s1 + 1) \<and>
            (\<forall>c' s3. login e code (emit (Log ''Session expired, re-logging in'') s2) = (Inr c', s3) \<longrightarrow>
                 calls s' = calls s1 + 2 \<and>
                 (\<forall>err s4. doRequest e method (cfg_panelUrl srv @ path) bdy c' s3 = (Inl err, s4) \<longrightarrow>
                      r = Inl err \<and> s' = s4) \<and>
                 (\<forall>res' s4. doRequest e method (cfg_panelUrl srv @ path) bdy c' s3 = (Inr res', s4) \<longrightarrow>
                      r = unwrap code res' \<and> s' = s4)))
       \<and> (\<forall>x. \<not> res_ok x \<longrightarrow> unwrap code x = Inl (ApiError code (status x)))
       \<and> (\<forall>x msg obj. res_ok x \<longrightarrow> body x = Json False msg obj \<longrightarrow> unwrap code x = Inl (ApiFailed code msg))
       \<and> (\<forall>x msg obj. res_ok x \<longrightarrow> body x = Json True msg obj \<longrightarrow> unwrap code x = Inr obj)"
proof -
  note c1 = doRequest_counts[OF req]
  have not401: "status res \<noteq> 401 \<Longrightarrow>
      r = unwrap code res \<and> s' = s2 \<and> logins s' = logins s1 \<and> calls s' = calls s1 + 1"
    using run cfg ens req c1 by (simp add: apiRequest_def Let_def)
  have is401: "logins s' = logins s1 + 1 \<and>
            (\<forall>err s3. login e code (emit (Log ''Session expired, re-logging in'') s2) = (Inl err, s3) \<longrightarrow>
                 r = Inl err \<and> s' = s3 \<and> calls s' = calls s1 + 1) \<and>
            (\<forall>c' s3. login e code (emit (Log ''Session expired, re-logging in'') s2) = (Inr c', s3) \<longrightarrow>
                 calls s' = calls s1 + 2 \<and>
                 (\<forall>err s4. doRequest e method (cfg_panelUrl srv @ path) bdy c' s3 = (Inl err, s4) \<longrightarrow>
                      r = Inl err \<and> s' = s4) \<and>
                 (\<forall>res' s4. doRequest e method (cfg_panelUrl srv @ path) bdy c' s3 = (Inr res', s4) \<longrightarrow>
                      r = unwrap code res' \<and> s' = s4))" if st: "status res = 401"
  proof -
    obtain rl s3 where lg: "login e code (emit (Log ''Session expired, re-logging in'') s2) = (rl, s3)"
      by (cases "login e code (emit (Log ''Session expired, re-logging in'') s2)") auto
    note c2 = login_counts[OF lg]
    show ?thesis
    proof (cases rl)
      case (Inl err)
      with run cfg ens req st lg have "r = Inl err" "s' = s3"
        by (simp_all add: apiRequest_def Let_def)
      with c1 c2 lg Inl show ?thesis by simp
    next
      case (Inr c')
      obtain rr s4 where rq2: "doRequest e method (cfg_panelUrl srv @ path) bdy c' s3 = (rr, s4)"
        by (cases "doRequest e method (cfg_panelUrl srv @ path) bdy c' s3") auto
      note c3 = doRequest_counts[OF rq2]
      from run cfg ens req st lg Inr rq2
      have fin: "s' = s4" "r = (case rr of Inl err \<Rightarrow> Inl err | Inr res' \<Rightarrow> unwrap code res')"
        by (auto simp add: apiRequest_def Let_def split: sum.splits)
      with c1 c2 c3 lg Inr rq2 show ?thesis by auto
    qed
  qed
  have uw: "(\<forall>x. \<not> res_ok x \<longrightarrow> unwrap code x = Inl (ApiError code (status x)))
       \<and> (\<forall>x msg obj. res_ok x \<longrightarrow> body x = Json False msg obj \<longrightarrow> unwrap code x = Inl (ApiFailed code msg))
       \<and> (\<forall>x msg obj. res_ok x \<longrightarrow> body x = Json True msg obj \<longrightarrow> unwrap code x = Inr obj)"
    by (simp add: unwrap_def)
  from not401 is401 uw show ?thesis by blast
qed


theorem apiRequest_reauth_once_witness:
  "fst (apiRequest env_401 ''ru'' ''GET'' ''/x'' NoBody state0) = Inr JNull
   \<and> logins (snd (apiRequest env_401 ''ru'' ''GET'' ''/x'' NoBody state0)) = logins state0 + 1
   \<and> calls (snd (apiRequest env_401 ''ru'' ''GET'' ''/x'' NoBody state0)) = calls state0 + 2
   \<and> fst (apiRequest env_ok ''ru'' ''GET'' ''/x'' NoBody state0) = Inr JNull
   \<and> calls (snd (apiRequest env_ok ''ru'' ''GET'' ''/x'' NoBody state0)) = calls state0 + 1"
proof -
  let ?url = "cfg_panelUrl cfg_ru @ ''/x''"
  let ?r401 = "\<lparr>status = 401, set_cookie = None, body = NotJson\<rparr>"
  let ?r200 = "\<lparr>status = 200, set_cookie = None, body = Json True None JNull\<rparr>"
  let ?s2 = "snd (doRequest env_401 ''GET'' ?url NoBody ''3x-ui=abc'' state0)"
  let ?s3 = "snd (login env_401 ''ru'' (emit (Log ''Session expired, re-logging in'') ?s2))"
  let ?s4 = "snd (doRequest env_401 ''GET'' ?url NoBody ''3x-ui=new'' ?s3)"
  have cfg: "getServerConfig env_401 ''ru'' = Inr cfg_ru"
    by (simp add: getServerConfig_def env_401_def env0_def cfg_ru_def)
  have ens: "ensureSession env_401 ''ru'' state0 = (Inr ''3x-ui=abc'', state0)"
    by (simp add: ensureSession_def state0_def)
  have "fst (doRequest env_401 ''GET'' ?url NoBody ''3x-ui=abc'' state0) = Inr ?r401"
    by (simp add: panel_defs input_defs env_401_def)
  then have req: "doRequest env_401 ''GET'' ?url NoBody ''3x-ui=abc'' state0 = (Inr ?r401, ?s2)"
    by (simp add: prod_eq_iff)
  have f2: "fetches ?s2 = 1"
    by (simp add: panel_defs input_defs env_401_def)
  have "fst (login env_401 ''ru'' (emit (Log ''Session expired, re-logging in'') ?s2)) = Inr ''3x-ui=new''"
    using f2 by (simp add: login_def getServerConfig_def fetchWithRetry_def fetchLoop.simps Let_def
          res_ok_def emit_def env_401_def env0_def script_def reply_cookie_def reply_def cfg_ru_def)
  then have lg: "login env_401 ''ru'' (emit (Log ''Session expired, re-logging in'') ?s2) = (Inr ''3x-ui=new'', ?s3)"
    by (simp add: prod_eq_iff)
  have f3: "fetches ?s3 = 2"
    using f2 by (simp add: login_def getServerConfig_def fetchWithRetry_def fetchLoop.simps Let_def
          res_ok_def emit_def env_401_def env0_def script_def reply_cookie_def reply_def cfg_ru_def)
  have "fst (doRequest env_401 ''GET'' ?url NoBody ''3x-ui=new'' ?s3) = Inr ?r200"
    using f3 by (simp add: doRequest_def fetchWithRetry_def fetchLoop.simps Let_def emit_def
          env_401_def env0_def script_def ok_reply_def reply_def)
  then have rq2: "doRequest env_401 ''GET'' ?url NoBody ''3x-ui=new'' ?s3 = (Inr ?r200, ?s4)"
    by (simp add: prod_eq_iff)
  have run: "apiRequest env_401 ''ru'' ''GET'' ''/x'' NoBody state0
               = (fst (apiRequest env_401 ''ru'' ''GET'' ''/x'' NoBody state0),
                  snd (apiRequest env_401 ''ru'' ''GET'' ''/x'' NoBody state0))"
    by simp
  note w = apiRequest_reauth_once [OF cfg ens req run, THEN conjunct2, THEN conjunct1, rule_format]
  have st: "status ?r401 = 401" by simp
  from w [OF st] have a: "logins (snd (apiRequest env_401 ''ru'' ''GET'' ''/x'' NoBody state0)) = logins state0 + 1"
    by blast
  from w [OF st, THEN conjunct2, THEN conjunct2, rule_format, OF lg]
  have b: "calls (snd (apiRequest env_401 ''ru'' ''GET'' ''/x'' NoBody state0)) = calls state0 + 2"
    and c: "\<forall>res' s4. doRequest env_401 ''GET'' ?url NoBody ''3x-ui=new'' ?s3 = (Inr res', s4) \<longrightarrow>
               fst (apiRequest env_401 ''ru'' ''GET'' ''/x'' NoBody state0) = unwrap ''ru'' res'
               \<and> snd (apiRequest env_401 ''ru'' ''GET'' ''/x'' NoBody state0) = s4"
    by blast+
  from c [rule_format, OF rq2]
  have d: "fst (apiRequest env_401 ''ru'' ''GET'' ''/x'' NoBody state0) = unwrap ''ru'' ?r200"
    by blast
  have e: "unwrap ''ru'' ?r200 = Inr JNull"
    by (simp add: unwrap_def res_ok_def)
  let ?t2 = "snd (doRequest env_ok ''GET'' ?url NoBody ''3x-ui=abc'' state0)"
  have cfg': "getServerConfig env_ok ''ru'' = Inr cfg_ru"
    by (simp add: getServerConfig_def env_ok_def env0_def cfg_ru_def)
  have ens': "ensureSession env_ok ''ru'' state0 = (Inr ''3x-ui=abc'', state0)"
    by (simp add: ensureSession_def state0_def)
  have "fst (doRequest env_ok ''GET'' ?url NoBody ''3x-ui=abc'' state0) = Inr ?r200"
    by (simp add: panel_defs input_defs)
  then have req': "doRequest env_ok ''GET'' ?url NoBody ''3x-ui=abc'' state0 = (Inr ?r200, ?t2)"
    by (simp add: prod_eq_iff)
  have run': "apiRequest env_ok ''ru'' ''GET'' ''/x'' NoBody state0
               = (fst (apiRequest env_ok ''ru'' ''GET'' ''/x'' NoBody state0),
                  snd (apiRequest env_ok ''ru'' ''GET'' ''/x'' NoBody state0))"
    by simp
  have st': "status ?r200 \<noteq> 401" by simp
  from apiRequest_reauth_once [OF cfg' ens' req' run', THEN conjunct1, rule_format, OF st']
  have f: "fst (apiRequest env_ok ''ru'' ''GET'' ''/x'' NoBody state0) = unwrap ''ru'' ?r200"
    and g: "calls (snd (apiRequest env_ok ''ru'' ''GET'' ''/x'' NoBody state0)) = calls state0 + 1"
    by blast+
  from a b d e f g show ?thesis by simp
qed

text \<open>
  C4 (as it stands, refuted). The claim gives the delays between the three attempts as
  1s, 2s and 4s. With every attempt failing, three fetches are made and the sleeps are
  1000 and 2000 milliseconds: after the last attempt the loop does not sleep.
\<close>

theorem fetchWithRetry_delays_counterexample:
  "fst (fetchWithRetry env0 probe_rq 3 state0) = Inl (Transport ''down'')
   \<and> length (filter is_fetch (trace (snd (fetchWithRetry env0 probe_rq 3 state0)))) = 3
   \<and> filter is_sleep (trace (snd (fetchWithRetry env0 probe_rq 3 state0))) = [Sleep 1000, Sleep 2000]
   \<and> filter is_sleep (trace (snd (fetchWithRetry env0 probe_rq 3 state0))) \<noteq> [Sleep 1000, Sleep 2000, Sleep 4000]"
  by (simp add: fetchWithRetry_def fetchLoop.simps emit_def Let_def env0_def state0_def script_def probe_rq_def)

text \<open>
  C4 (amended). \<open>fetchWithRetry\<close> with its default bound makes at most three attempts,
  each with a 15000 ms timeout; it returns the first response it gets; after a failed
  first attempt it sleeps 1000 ms, after a failed second attempt 2000 ms, and after a
  failed third attempt it throws that attempt's error without sleeping.
\<close>

theorem fetchWithRetry_three_attempts:
  "fetchWithRetry e rq 3 s =
     (case net e (fetches s) of
        Reply r \<Rightarrow>
          (Inr r, s\<lparr>fetches := fetches s + 1,
                    trace := trace s @ [Fetch (rq\<lparr>req_timeout := Some 15000\<rparr>)]\<rparr>)
      | NetFail m1 \<Rightarrow>
         (case net e (fetches s + 1) of
            Reply r \<Rightarrow>
              (Inr r, s\<lparr>fetches := fetches s + 2,
                        trace := trace s @ [Fetch (rq\<lparr>req_timeout := Some 15000\<rparr>), Log ''Fetch retry'', Sleep 1000,
                                            Fetch (rq\<lparr>req_timeout := Some 15000\<rparr>)]\<rparr>)
          | NetFail m2 \<Rightarrow>
             (case net e (fetches s + 2) of
                Reply r \<Rightarrow>
                  (Inr r, s\<lparr>fetches := fetches s + 3,
                            trace := trace s @ [Fetch (rq\<lparr>req_timeout := Some 15000\<rparr>), Log ''Fetch retry'', Sleep 1000,
                                                Fetch (rq\<lparr>req_timeout := Some 15000\<rparr>), Log ''Fetch retry'', Sleep 2000,
                                                Fetch (rq\<lparr>req_timeout := Some 15000\<rparr>)]\<rparr>)
              | NetFail m3 \<Rightarrow>
                  (Inl (Transport m3),
                   s\<lparr>fetches := fetches s + 3,
                     trace := trace s @ [Fetch (rq\<lparr>req_timeout := Some 15000\<rparr>), Log ''Fetch retry'', Sleep 1000,
                                         Fetch (rq\<lparr>req_timeout := Some 15000\<rparr>), Log ''Fetch retry'', Sleep 2000,
                                         Fetch (rq\<lparr>req_timeout := Some 15000\<rparr>)]\<rparr>))))"
  by (simp add: fetchWithRetry_def fetchLoop.simps emit_def Let_def split: fetch_outcome.split)

theorem fetchWithRetry_three_attempts_witness:
  "fst (fetchWithRetry env0 probe_rq 3 state0) = Inl (Transport ''down'')
   \<and> fetches (snd (fetchWithRetry env0 probe_rq 3 state0)) = 3
   \<and> trace (snd (fetchWithRetry env0 probe_rq 3 state0))
       = [Fetch (probe_rq\<lparr>req_timeout := Some 15000\<rparr>), Log ''Fetch retry'', Sleep 1000,
          Fetch (probe_rq\<lparr>req_timeout := Some 15000\<rparr>), Log ''Fetch retry'', Sleep 2000,
          Fetch (probe_rq\<lparr>req_timeout := Some 15000\<rparr>)]"
  using fetchWithRetry_three_attempts [of env0 probe_rq state0]
  by (simp add: env0_def state0_def script_def)

subsection \<open>The provisioning operations\<close>

text \<open>
  C7 (as it stands, refuted). The claim has \<open>getClientTraffic\<close> never return an error.
  It has no \<open>try\<close>: when the panel answers with status 500, and when the server code is
  not configured, the error of \<open>apiRequest\<close> reaches the caller.
\<close>

theorem getClientTraffic_error_counterexample:
  "fst (getClientTraffic env_500 ''ru'' ''tg_42_ru_11111111'' state0) = Inl (ApiError ''ru'' 500)
   \<and> fst (getClientTraffic env0 ''de'' ''tg_42_de_11111111'' state0) = Inl (ConfigNotFound ''de'')"
  by (simp add: panel_defs input_defs env_500_def)

text \<open>
  C7 (amended). \<open>getClientTraffic\<close> returns the zero usage record when the call to the
  panel succeeds with no record (a falsy \<open>obj\<close>), returns \<open>up\<close>, \<open>down\<close> (each 0 when
  missing) and their sum when there is a record, and passes every error of the call to
  the panel on to its caller. Spelled out for a cached session: a first response other
  than 401 gives an error when its status is outside 2xx, when its body is not JSON and
  when the envelope says \<open>success: false\<close>, and the usage otherwise; three failed
  attempts give the last transport error.
\<close>

theorem getClientTraffic_spec:
  "apiRequest e code ''GET'' (''/panel/api/inbounds/getClientTraffics/'' @ email) NoBody s = (r, s1) \<Longrightarrow>
     (r = Inr JNull \<longrightarrow>
        getClientTraffic e code email s = (Inr \<lparr>up = 0, down = 0, total = 0\<rparr>, s1))
   \<and> (\<forall>u d. r = Inr (JObj u d) \<longrightarrow>
        getClientTraffic e code email s = (Inr \<lparr>up = or0 u, down = or0 d, total = or0 u + or0 d\<rparr>, s1))
   \<and> (\<forall>err. r = Inl err \<longrightarrow> getClientTraffic e code email s = (Inl err, s1))
   \<and> (\<forall>srv ck res. getServerConfig e code = Inr srv \<longrightarrow> map_of (sessions s) code = Some ck \<longrightarrow>
          ck \<noteq> [] \<longrightarrow> net e (fetches s) = Reply res \<longrightarrow> status res \<noteq> 401 \<longrightarrow>
          fst (getClientTraffic e code email s) =
            (if \<not> res_ok res then Inl (ApiError code (status res))
             else case body res of
                    NotJson \<Rightarrow> Inl BadJson
                  | Json success msg obj \<Rightarrow>
                      if \<not> success then Inl (ApiFailed code msg)
                      else (case obj of
                              JNull \<Rightarrow> Inr \<lparr>up = 0, down = 0, total = 0\<rparr>
                            | JObj u d \<Rightarrow> Inr \<lparr>up = or0 u, down = or0 d, total = or0 u + or0 d\<rparr>)))
   \<and> (\<forall>srv ck m1 m2 m3. getServerConfig e code = Inr srv \<longrightarrow> map_of (sessions s) code = Some ck \<longrightarrow>
          ck \<noteq> [] \<longrightarrow> net e (fetches s) = NetFail m1 \<longrightarrow> net e (fetches s + 1) = NetFail m2 \<longrightarrow>
          net e (fetches s + 2) = NetFail m3 \<longrightarrow>
          fst (getClientTraffic e code email s) = Inl (Transport m3))"
proof -
  assume run: "apiRequest e code ''GET'' (''/panel/api/inbounds/getClientTraffics/'' @ email) NoBody s = (r, s1)"
  have a: "(r = Inr JNull \<longrightarrow>
        getClientTraffic e code email s = (Inr \<lparr>up = 0, down = 0, total = 0\<rparr>, s1))
   \<and> (\<forall>u d. r = Inr (JObj u d) \<longrightarrow>
        getClientTraffic e code email s = (Inr \<lparr>up = or0 u, down = or0 d, total = or0 u + or0 d\<rparr>, s1))
   \<and> (\<forall>err. r = Inl err \<longrightarrow> getClientTraffic e code email s = (Inl err, s1))"
    using run by (simp add: getClientTraffic_def)
  have b: "\<forall>srv ck res. getServerConfig e code = Inr srv \<longrightarrow> map_of (sessions s) code = Some ck \<longrightarrow>
          ck \<noteq> [] \<longrightarrow> net e (fetches s) = Reply res \<longrightarrow> status res \<noteq> 401 \<longrightarrow>
          fst (getClientTraffic e code email s) =
            (if \<not> res_ok res then Inl (ApiError code (status res))
             else case body res of
                    NotJson \<Rightarrow> Inl BadJson
                  | Json success msg obj \<Rightarrow>
                      if \<not> success then Inl (ApiFailed code msg)
                      else (case obj of
                              JNull \<Rightarrow> Inr \<lparr>up = 0, down = 0, total = 0\<rparr>
                            | JObj u d \<Rightarrow> Inr \<lparr>up = or0 u, down = or0 d, total = or0 u + or0 d\<rparr>))"
    by (simp add: getClientTraffic_def apiRequest_def ensureSession_def doRequest_def unwrap_def
          fetchWithRetry_def fetchLoop.simps emit_def Let_def split: payload.splits jobj.splits)
  have c: "\<forall>srv ck m1 m2 m3. getServerConfig e code = Inr srv \<longrightarrow> map_of (sessions s) code = Some ck \<longrightarrow>
          ck \<noteq> [] \<longrightarrow> net e (fetches s) = NetFail m1 \<longrightarrow> net e (fetches s + 1) = NetFail m2 \<longrightarrow>
          net e (fetches s + 2) = NetFail m3 \<longrightarrow>
          fst (getClientTraffic e code email s) = Inl (Transport m3)"
    by (simp add: getClientTraffic_def apiRequest_def ensureSession_def doRequest_def
          fetchWithRetry_def fetchLoop.simps emit_def Let_def)
  from a b c show ?thesis by blast
qed

theorem getClientTraffic_spec_witness:
  "fst (getClientTraffic env_ok ''ru'' ''tg_42_ru_11111111'' state0) = Inr \<lparr>up = 0, down = 0, total = 0\<rparr>
   \<and> fst (getClientTraffic env_500 ''ru'' ''tg_42_ru_11111111'' state0) = Inl (ApiError ''ru'' 500)"
proof -
  let ?p = "''/panel/api/inbounds/getClientTraffics/'' @ ''tg_42_ru_11111111''"
  have "fst (apiRequest env_ok ''ru'' ''GET'' ?p NoBody state0) = Inr JNull"
    by (simp add: panel_defs input_defs)
  then have a: "apiRequest env_ok ''ru'' ''GET'' ?p NoBody state0
                  = (Inr JNull, snd (apiRequest env_ok ''ru'' ''GET'' ?p NoBody state0))"
    by (simp add: prod_eq_iff)
  have "fst (apiRequest env_500 ''ru'' ''GET'' ?p NoBody state0) = Inl (ApiError ''ru'' 500)"
    by (simp add: panel_defs input_defs env_500_def)
  then have b: "apiRequest env_500 ''ru'' ''GET'' ?p NoBody state0
                  = (Inl (ApiError ''ru'' 500), snd (apiRequest env_500 ''ru'' ''GET'' ?p NoBody state0))"
    by (simp add: prod_eq_iff)
  from getClientTraffic_spec [OF a, THEN conjunct1]
  have c: "fst (getClientTraffic env_ok ''ru'' ''tg_42_ru_11111111'' state0) = Inr \<lparr>up = 0, down = 0, total = 0\<rparr>"
    by simp
  from getClientTraffic_spec [OF b, THEN conjunct2, THEN conjunct2, THEN conjunct1, rule_format, of "ApiError ''ru'' 500"]
  have d: "fst (getClientTraffic env_500 ''ru'' ''tg_42_ru_11111111'' state0) = Inl (ApiError ''ru'' 500)"
    by simp
  from c d show ?thesis by simp
qed

subsection \<open>The health probes\<close>

text \<open>The health probe written out for its two attempts.\<close>

lemma healthCheck_two_attempts:
  "healthCheck e code s =
     (case getServerConfig e code of
        Inl err \<Rightarrow> (False, s)
      | Inr srv \<Rightarrow>
         (case net e (fetches s) of
            Reply r \<Rightarrow> (res_ok r \<or> status r = 302,
                         s\<lparr>fetches := fetches s + 1, trace := trace s @ [Fetch (probe_request srv)]\<rparr>)
          | NetFail m1 \<Rightarrow>
             (case net e (fetches s + 1) of
                Reply r \<Rightarrow> (res_ok r \<or> status r = 302,
                             s\<lparr>fetches := fetches s + 2,
                               trace := trace s @ [Fetch (probe_request srv), Log ''Fetch retry'', Sleep 1000,
                                                   Fetch (probe_request srv)]\<rparr>)
              | NetFail m2 \<Rightarrow> (False,
                             s\<lparr>fetches := fetches s + 2,
                               trace := trace s @ [Fetch (probe_request srv), Log ''Fetch retry'', Sleep 1000,
                                                   Fetch (probe_request srv)]\<rparr>))))"
  by (simp add: healthCheck_def fetchWithRetry_def fetchLoop.simps emit_def Let_def probe_request_def
           split: fetch_outcome.split sum.split)

text \<open>
  One resumption of one probe keeps the pool in order; so does every schedule. After the
  start every probe awaits its first fetch, and after the closing resumptions every probe
  has finished.
\<close>

lemma good_results:
  "probe_good e cs k0 g results j q \<Longrightarrow> dom results \<subseteq> dom results1 \<Longrightarrow>
   (distinct cs \<Longrightarrow> results1 (cs ! j) = results (cs ! j)) \<Longrightarrow>
   probe_good e cs k0 g results1 j q"
  by (cases q) auto

lemma good_g:
  "probe_good e cs k0 g results j q \<Longrightarrow> g' j = g j \<Longrightarrow> probe_good e cs k0 g' results j q"
  by (cases q) auto

lemma pool_inv_step:
  assumes inv: "pool_inv e cs k0 g ps results s"
      and i: "i < length ps"
      and st: "probeStep e (ps ! i) results s = (p, results1, s1)"
  shows "\<exists>g'. pool_inv e cs k0 g' (ps[i := p]) results1 s1"
proof -
  from inv have len: "length ps = length cs" and dm: "dom results \<subseteq> set cs"
    and lo: "k0 + length cs \<le> fetches s"
    and each: "\<And>j. j < length cs \<Longrightarrow> probe_good e cs k0 g results j (ps ! j)"
    and inj: "inj_on g (retried e k0 ps)"
    and img: "g ` retried e k0 ps = {k0 + length cs ..< fetches s}"
    by (simp_all add: pool_inv_def)
  from i len have ic: "i < length cs" by simp
  note mine = each [OF ic]
  have other: "\<And>j. j < length cs \<Longrightarrow> j \<noteq> i \<Longrightarrow> distinct cs \<Longrightarrow> cs ! j \<noteq> cs ! i"
    using ic by (simp add: nth_eq_iff_index_eq)
  have csi: "cs ! i \<in> set cs" using ic by simp
  \<comment> \<open>a step that sets the entry of probe i and leaves the fetch count and g alone\<close>
  have answer: "pool_inv e cs k0 g (ps[i := Finished]) (results(cs ! i \<mapsto> b)) s"
    if rt: "retried e k0 (ps[i := Finished]) = retried e k0 ps"
      and b: "b = outcome_ok e (if first_failed e k0 i then g i else k0 + i)" for b
  proof -
    have "probe_good e cs k0 g (results(cs ! i \<mapsto> b)) j ((ps[i := Finished]) ! j)"
      if j: "j < length cs" for j
    proof (cases "j = i")
      case True
      with i b show ?thesis by simp
    next
      case False
      with i have "(ps[i := Finished]) ! j = ps ! j" by simp
      moreover have "probe_good e cs k0 g (results(cs ! i \<mapsto> b)) j (ps ! j)"
      proof (rule good_results [OF each [OF j]])
        show "dom results \<subseteq> dom (results(cs ! i \<mapsto> b))" by auto
        show "(results(cs ! i \<mapsto> b)) (cs ! j) = results (cs ! j)" if "distinct cs"
          using other [OF j False that] by simp
      qed
      ultimately show ?thesis by simp
    qed
    then show ?thesis
      unfolding pool_inv_def rt using len dm lo inj img csi by simp
  qed
  show ?thesis
  proof (cases "ps ! i")
    case (Await1 c srv k)
    with mine have c: "c = cs ! i" and k: "k = k0 + i" by simp_all
    show ?thesis
    proof (cases "net e k")
      case (Reply r)
      with st Await1 c have res: "p = Finished" "results1 = results(cs ! i \<mapsto> (res_ok r \<or> status r = 302))" "s1 = s"
        by simp_all
      from Reply k have nf: "\<not> first_failed e k0 i" and oo: "outcome_ok e (k0 + i) = (res_ok r \<or> status r = 302)"
        by (simp_all add: first_failed_def outcome_ok_def)
      from i nf Await1 have rt: "retried e k0 (ps[i := Finished]) = retried e k0 ps"
        by (auto simp add: retried_def nth_list_update)
      from answer [OF rt, of "res_ok r \<or> status r = 302"] nf oo res show ?thesis by auto
    next
      case (NetFail m)
      with st Await1 have res: "p = Sleeping c srv" "results1 = results"
        "s1 = emit (Sleep 1000) (emit (Log ''Fetch retry'') s)"
        by simp_all
      from NetFail k have ff: "first_failed e k0 i" by (simp add: first_failed_def)
      from i Await1 res have rt: "retried e k0 (ps[i := p]) = retried e k0 ps"
        by (auto simp add: retried_def nth_list_update)
      have "probe_good e cs k0 g results j ((ps[i := p]) ! j)" if j: "j < length cs" for j
      proof (cases "j = i")
        case True
        with i res c ff show ?thesis by simp
      next
        case False
        with i each [OF j] show ?thesis by simp
      qed
      then have "pool_inv e cs k0 g (ps[i := p]) results1 s1"
        unfolding pool_inv_def rt using len dm lo inj img res by (simp add: emit_def)
      then show ?thesis by blast
    qed
  next
    case (Sleeping c srv)
    with mine have c: "c = cs ! i" and ff: "first_failed e k0 i" by simp_all
    from st Sleeping have res: "p = Await2 c srv (fetches s)" "results1 = results"
      "s1 = emit (Fetch (probe_request srv)) (s\<lparr>fetches := fetches s + 1\<rparr>)"
      by simp_all
    let ?g = "g(i := fetches s)"
    from i Sleeping have ni: "i \<notin> retried e k0 ps" by (simp add: retried_def)
    from i ff res have rt: "retried e k0 (ps[i := p]) = insert i (retried e k0 ps)"
      by (auto simp add: retried_def nth_list_update)
    have fresh: "fetches s \<notin> g ` retried e k0 ps" using img by simp
    have inj': "inj_on ?g (insert i (retried e k0 ps))"
    proof -
      have a: "inj_on ?g (retried e k0 ps)" using inj fresh by (rule inj_on_fun_updI)
      have b: "?g ` (retried e k0 ps - {i}) = g ` retried e k0 ps" using ni by auto
      have c: "?g i = fetches s" by simp
      show ?thesis unfolding inj_on_insert b c using a fresh by simp
    qed
    have img': "?g ` insert i (retried e k0 ps) = {k0 + length cs ..< fetches s + 1}"
    proof -
      have same: "?g ` retried e k0 ps = g ` retried e k0 ps" using ni by auto
      have "?g ` insert i (retried e k0 ps) = insert (?g i) (?g ` retried e k0 ps)"
        by (rule image_insert)
      also have "\<dots> = insert (fetches s) {k0 + length cs ..< fetches s}"
        unfolding same img by simp
      also have "\<dots> = {k0 + length cs ..< fetches s + 1}" using lo by auto
      finally show ?thesis .
    qed
    have "probe_good e cs k0 ?g results j ((ps[i := p]) ! j)" if j: "j < length cs" for j
    proof (cases "j = i")
      case True
      with i res c ff show ?thesis by simp
    next
      case False
      with i each [OF j] show ?thesis by (auto intro: good_g)
    qed
    then have "pool_inv e cs k0 ?g (ps[i := p]) results1 s1"
      unfolding pool_inv_def rt using len dm lo inj' img' res by (simp add: emit_def)
    then show ?thesis by blast
  next
    case (Await2 c srv k)
    with mine have c: "c = cs ! i" and ff: "first_failed e k0 i" and k: "k = g i" by simp_all
    from st Await2 c have res: "p = Finished" "results1 = results(cs ! i \<mapsto> outcome_ok e k)" "s1 = s"
      by (auto simp add: outcome_ok_def split: fetch_outcome.splits)
    from i ff Await2 have rt: "retried e k0 (ps[i := Finished]) = retried e k0 ps"
      by (auto simp add: retried_def nth_list_update)
    from answer [OF rt, of "outcome_ok e k"] ff k res show ?thesis by auto
  next
    case Finished
    with st have res: "p = Finished" "results1 = results" "s1 = s" by simp_all
    with Finished i have "ps[i := p] = ps" by (simp add: list_update_same_conv)
    with inv res show ?thesis by auto
  qed
qed

lemma runSched_inv:
  "\<exists>g. pool_inv e cs k0 g ps results s \<Longrightarrow> runSched e sched ps results s = (ps', results', s') \<Longrightarrow>
   \<exists>g. pool_inv e cs k0 g ps' results' s'"
proof (induction sched arbitrary: ps results s)
  case Nil
  then show ?case by simp
next
  case (Cons i sched)
  show ?case
  proof (cases "i < length ps")
    case False
    with Cons.prems(2) have "runSched e sched ps results s = (ps', results', s')" by simp
    from Cons.IH [OF Cons.prems(1) this] show ?thesis .
  next
    case True
    obtain p results1 s1 where st: "probeStep e (ps ! i) results s = (p, results1, s1)"
      by (cases "probeStep e (ps ! i) results s") auto
    from Cons.prems(1) obtain g where "pool_inv e cs k0 g ps results s" by blast
    from pool_inv_step [OF this True st]
    have inv1: "\<exists>g. pool_inv e cs k0 g (ps[i := p]) results1 s1" .
    from Cons.prems(2) True st
    have "runSched e sched (ps[i := p]) results1 s1 = (ps', results', s')" by simp
    from Cons.IH [OF inv1 this] show ?thesis .
  qed
qed

lemma startProbes_shape:
  "startProbes e xs results s = (ps, results', s') \<Longrightarrow>
   \<forall>srv \<in> set xs. \<exists>c. getServerConfig e (cfg_code srv) = Inr c \<Longrightarrow>
   length ps = length xs \<and> results' = results \<and> fetches s' = fetches s + length xs \<and>
   (\<forall>i < length xs. \<exists>c. ps ! i = Await1 (cfg_code (xs ! i)) c (fetches s + i))"
proof (induction xs arbitrary: results s ps results' s')
  case Nil
  then show ?case by simp
next
  case (Cons srv rest)
  from Cons.prems(2) obtain c where c: "getServerConfig e (cfg_code srv) = Inr c" by auto
  let ?s1 = "emit (Fetch (probe_request c)) (s\<lparr>fetches := fetches s + 1\<rparr>)"
  have ps1: "probeStart e (cfg_code srv) results s = (Await1 (cfg_code srv) c (fetches s), results, ?s1)"
    using c by (simp add: probeStart_def)
  obtain qs r2 s2 where rest: "startProbes e rest results ?s1 = (qs, r2, s2)"
    by (cases "startProbes e rest results ?s1") auto
  from Cons.prems(1) ps1 rest
  have eq: "ps = Await1 (cfg_code srv) c (fetches s) # qs" "results' = r2" "s' = s2" by simp_all
  from Cons.prems(2) have "\<forall>x \<in> set rest. \<exists>c. getServerConfig e (cfg_code x) = Inr c" by simp
  from Cons.IH [OF rest this]
  have ih: "length qs = length rest" "r2 = results" "fetches s2 = fetches ?s1 + length rest"
    "\<forall>i < length rest. \<exists>c. qs ! i = Await1 (cfg_code (rest ! i)) c (fetches ?s1 + i)"
    by blast+
  have f1: "fetches ?s1 = fetches s + 1" by (simp add: emit_def)
  have "\<exists>c'. ps ! i = Await1 (cfg_code ((srv # rest) ! i)) c' (fetches s + i)"
    if i: "i < length (srv # rest)" for i
  proof (cases i)
    case 0
    with eq show ?thesis by simp
  next
    case (Suc j)
    with i have "j < length rest" by simp
    with ih(4) obtain c' where "qs ! j = Await1 (cfg_code (rest ! j)) c' (fetches ?s1 + j)" by blast
    with Suc eq f1 show ?thesis by simp
  qed
  with eq ih f1 show ?case by simp
qed

lemma configured_resolves:
  "srv \<in> set (cfg_servers e) \<Longrightarrow> \<exists>c. getServerConfig e (cfg_code srv) = Inr c"
  by (cases "find (\<lambda>c. cfg_code c = cfg_code srv) (cfg_servers e)")
     (auto simp add: getServerConfig_def find_None_iff)

lemma start_inv:
  assumes "startProbes e (cfg_servers e) Map.empty s = (ps, results, s1)"
  shows "pool_inv e (map cfg_code (cfg_servers e)) (fetches s) g ps results s1"
proof -
  from startProbes_shape [OF assms] configured_resolves
  have sh: "length ps = length (cfg_servers e)" "results = Map.empty"
    "fetches s1 = fetches s + length (cfg_servers e)"
    "\<forall>i < length (cfg_servers e). \<exists>c. ps ! i = Await1 (cfg_code (cfg_servers e ! i)) c (fetches s + i)"
    by blast+
  have rt: "retried e (fetches s) ps = {}"
    using sh(1,4) by (auto simp add: retried_def)
  have "probe_good e (map cfg_code (cfg_servers e)) (fetches s) g results i (ps ! i)"
    if "i < length (cfg_servers e)" for i
    using sh(4) that by auto
  then show ?thesis
    unfolding pool_inv_def rt using sh by simp
qed

lemma runSched_append:
  "runSched e (a @ b) ps results s =
     (case runSched e a ps results s of (ps1, results1, s1) \<Rightarrow> runSched e b ps1 results1 s1)"
  by (induction a arbitrary: ps results s) (auto split: prod.splits)

lemma probeStep_left: "steps_left (fst (probeStep e p results s)) \<le> steps_left p - 1"
  by (cases p) (auto split: fetch_outcome.splits)

lemma runSched_length: "length (fst (runSched e sched ps results s)) = length ps"
  by (induction sched arbitrary: ps results s) (auto split: prod.splits)

lemma runSched_left:
  "j < length ps \<Longrightarrow> steps_left (fst (runSched e sched ps results s) ! j) \<le> steps_left (ps ! j)"
proof (induction sched arbitrary: ps results s)
  case Nil
  then show ?case by simp
next
  case (Cons i sched)
  show ?case
  proof (cases "i < length ps")
    case False
    with Cons show ?thesis by simp
  next
    case True
    obtain p results1 s1 where st: "probeStep e (ps ! i) results s = (p, results1, s1)"
      by (cases "probeStep e (ps ! i) results s") auto
    from probeStep_left [of e "ps ! i" results s] st have le: "steps_left p \<le> steps_left (ps ! i)" by simp
    from Cons.prems have j: "j < length (ps[i := p])" by simp
    from Cons.IH [OF j, of results1 s1]
    have "steps_left (fst (runSched e sched (ps[i := p]) results1 s1) ! j) \<le> steps_left ((ps[i := p]) ! j)" .
    also have "\<dots> \<le> steps_left (ps ! j)" using le Cons.prems by (cases "j = i") simp_all
    finally show ?thesis using True st by simp
  qed
qed

lemma three_steps:
  assumes i: "i < length ps"
  shows "steps_left (fst (runSched e [i, i, i] ps results s) ! i) = 0"
proof -
  obtain p1 r1 s1 where a: "probeStep e (ps ! i) results s = (p1, r1, s1)"
    by (cases "probeStep e (ps ! i) results s") auto
  obtain p2 r2 s2 where b: "probeStep e p1 r1 s1 = (p2, r2, s2)"
    by (cases "probeStep e p1 r1 s1") auto
  obtain p3 r3 s3 where c: "probeStep e p2 r2 s2 = (p3, r3, s3)"
    by (cases "probeStep e p2 r2 s2") auto
  from probeStep_left [of e "ps ! i" results s] a have "steps_left p1 \<le> steps_left (ps ! i) - 1" by simp
  moreover from probeStep_left [of e p1 r1 s1] b have "steps_left p2 \<le> steps_left p1 - 1" by simp
  moreover from probeStep_left [of e p2 r2 s2] c have "steps_left p3 \<le> steps_left p2 - 1" by simp
  moreover have "steps_left (ps ! i) \<le> 3" by (cases "ps ! i") simp_all
  ultimately have "steps_left p3 = 0" by simp
  moreover have "fst (runSched e [i, i, i] ps results s) ! i = p3"
    using i a b c by simp
  ultimately show ?thesis by simp
qed

lemma drain_Suc: "drain (Suc n) = drain n @ [n, n, n]"
  by (simp add: drain_def)

lemma drain_finishes:
  "m \<le> length ps \<Longrightarrow> j < m \<Longrightarrow> steps_left (fst (runSched e (drain m) ps results s) ! j) = 0"
proof (induction m arbitrary: j)
  case 0
  then show ?case by simp
next
  case (Suc m)
  obtain ps1 r1 s1 where d: "runSched e (drain m) ps results s = (ps1, r1, s1)"
    by (cases "runSched e (drain m) ps results s") auto
  from runSched_length [of e "drain m" ps results s] d have l1: "length ps1 = length ps" by simp
  have split: "runSched e (drain (Suc m)) ps results s = runSched e [m, m, m] ps1 r1 s1"
    using d by (simp add: drain_Suc runSched_append)
  show ?case
  proof (cases "j = m")
    case True
    from Suc.prems l1 have "m < length ps1" by simp
    from three_steps [OF this] True split show ?thesis by simp
  next
    case False
    with Suc.prems have jm: "j < m" and ml: "m \<le> length ps" by simp_all
    from Suc.IH [OF ml jm] d have z: "steps_left (ps1 ! j) = 0" by simp
    from jm ml l1 have "j < length ps1" by simp
    from runSched_left [OF this, of e "[m, m, m]" r1 s1] z split show ?thesis by simp
  qed
qed

lemma left_zero: "steps_left p = 0 \<Longrightarrow> p = Finished"
  by (cases p) simp_all

lemma healthCheckAll_finished:
  assumes st: "startProbes e (cfg_servers e) Map.empty s = (ps, results, s1)"
      and rn: "runSched e (sched @ drain (length ps)) ps results s1 = (ps', results', s')"
  shows "length ps' = length (cfg_servers e) \<and> (\<forall>j < length ps'. ps' ! j = Finished)"
proof -
  from startProbes_shape [OF st] configured_resolves have len: "length ps = length (cfg_servers e)" by blast
  obtain qs r2 s2 where a: "runSched e sched ps results s1 = (qs, r2, s2)"
    by (cases "runSched e sched ps results s1") auto
  from runSched_length [of e sched ps results s1] a have lq: "length qs = length ps" by simp
  from rn a have b: "runSched e (drain (length ps)) qs r2 s2 = (ps', results', s')"
    by (simp add: runSched_append)
  from runSched_length [of e "drain (length ps)" qs r2 s2] b lq have lp: "length ps' = length ps" by simp
  have "ps' ! j = Finished" if "j < length ps'" for j
  proof -
    from that lp lq have "j < length ps" "length ps \<le> length qs" by simp_all
    from drain_finishes [OF this(2) this(1), of e r2 s2] b show ?thesis by (simp add: left_zero)
  qed
  with lp len show ?thesis by simp
qed

text \<open>
  What \<open>healthCheckAll\<close> returns under any schedule. With n servers and \<open>k0\<close> fetches
  made before the call, probe i has fetch \<open>k0 + i\<close> as its first; the probes whose first
  fetch was rejected have the fetches from \<open>k0 + n\<close> on as their second ones, one each, in
  the order the schedule wakes them.
\<close>

lemma healthCheckAll_pool:
  fixes e sched s
  defines "n \<equiv> length (cfg_servers e)" and "k0 \<equiv> fetches s"
  defines "F \<equiv> {i. i < n \<and> first_failed e k0 i}"
  shows "dom (fst (healthCheckAll e sched s)) = cfg_code ` set (cfg_servers e)"
    and "\<exists>g. inj_on g F \<and> g ` F = {k0 + n ..< k0 + n + card F} \<and>
             fetches (snd (healthCheckAll e sched s)) = k0 + n + card F \<and>
             (distinct (map cfg_code (cfg_servers e)) \<longrightarrow>
               (\<forall>i < n. fst (healthCheckAll e sched s) (cfg_code (cfg_servers e ! i)) =
                          Some (outcome_ok e (if first_failed e k0 i then g i else k0 + i))))"
proof -
  let ?cs = "map cfg_code (cfg_servers e)"
  obtain ps results s1 where st: "startProbes e (cfg_servers e) Map.empty s = (ps, results, s1)"
    by (cases "startProbes e (cfg_servers e) Map.empty s") auto
  obtain ps' results' s' where rn: "runSched e (sched @ drain (length ps)) ps results s1 = (ps', results', s')"
    by (cases "runSched e (sched @ drain (length ps)) ps results s1") auto
  from st rn have hc: "healthCheckAll e sched s = (results', s')" by (simp add: healthCheckAll_def)
  from start_inv [OF st] have "\<exists>g. pool_inv e ?cs k0 g ps results s1" unfolding k0_def by blast
  from runSched_inv [OF this rn] obtain g where inv: "pool_inv e ?cs k0 g ps' results' s'" by blast
  from healthCheckAll_finished [OF st rn]
  have len: "length ps' = n" and fin: "\<And>j. j < n \<Longrightarrow> ps' ! j = Finished"
    unfolding n_def by simp_all
  from inv have dm: "dom results' \<subseteq> set ?cs" and lo: "k0 + n \<le> fetches s'"
    and each: "\<And>i. i < n \<Longrightarrow> probe_good e ?cs k0 g results' i (ps' ! i)"
    and inj: "inj_on g (retried e k0 ps')"
    and img: "g ` retried e k0 ps' = {k0 + n ..< fetches s'}"
    unfolding n_def by (simp_all add: pool_inv_def)
  have rt: "retried e k0 ps' = F"
    unfolding retried_def F_def using len fin by auto
  have good: "cfg_code (cfg_servers e ! i) \<in> dom results' \<and>
      (distinct ?cs \<longrightarrow> results' (cfg_code (cfg_servers e ! i)) =
          Some (outcome_ok e (if first_failed e k0 i then g i else k0 + i)))" if i: "i < n" for i
    using each [OF i] fin [OF i] i unfolding n_def by simp
  have "set ?cs \<subseteq> dom results'"
  proof
    fix c assume "c \<in> set ?cs"
    then obtain i where "i < n" "c = cfg_code (cfg_servers e ! i)"
      unfolding n_def by (auto simp add: in_set_conv_nth)
    with good show "c \<in> dom results'" by blast
  qed
  with dm have "dom results' = cfg_code ` set (cfg_servers e)" by auto
  with hc show "dom (fst (healthCheckAll e sched s)) = cfg_code ` set (cfg_servers e)" by simp
  have finF: "finite F" unfolding F_def by simp
  from inj rt have injF: "inj_on g F" by simp
  from img rt have imgF: "g ` F = {k0 + n ..< fetches s'}" by simp
  from card_image [OF injF] imgF have "card F = fetches s' - (k0 + n)" by simp
  with lo have cnt: "fetches s' = k0 + n + card F" by simp
  from injF imgF cnt good hc
  show "\<exists>g. inj_on g F \<and> g ` F = {k0 + n ..< k0 + n + card F} \<and>
             fetches (snd (healthCheckAll e sched s)) = k0 + n + card F \<and>
             (distinct (map cfg_code (cfg_servers e)) \<longrightarrow>
               (\<forall>i < n. fst (healthCheckAll e sched s) (cfg_code (cfg_servers e ! i)) =
                          Some (outcome_ok e (if first_failed e k0 i then g i else k0 + i))))"
    by (intro exI [of _ g]) simp
qed

text \<open>
  C8. \<open>healthCheck\<close> always returns a boolean and no error, and it does probe: for a
  configured code it fetches \<open>panelUrl/\<close> with the 15 s timeout, once more after 1 s when
  the first attempt is rejected, and returns whether the response it got is 2xx or 302.
  So an unknown code, two rejected attempts and any response that is neither 2xx nor 3xx
  give false. \<open>healthCheckAll\<close> probes all configured endpoints at once: the first
  request of every endpoint is issued, in the order of the configuration, before any
  answer is awaited, so that under every order in which answers and timers arrive the
  returned map has exactly the configured codes as keys, an endpoint that answers its
  first request is reported from that answer whatever the other endpoints do, and an
  endpoint whose first request is rejected is reported from its own second request, one
  of the fetches made after all first requests. With a single endpoint the entry is what
  \<open>healthCheck\<close> returns for it.
\<close>

theorem healthCheck_total:
  "healthCheck e code s =
     (case getServerConfig e code of
        Inl err \<Rightarrow> (False, s)
      | Inr srv \<Rightarrow>
         (case net e (fetches s) of
            Reply r \<Rightarrow> (res_ok r \<or> status r = 302,
                         s\<lparr>fetches := fetches s + 1, trace := trace s @ [Fetch (probe_request srv)]\<rparr>)
          | NetFail m1 \<Rightarrow>
             (case net e (fetches s + 1) of
                Reply r \<Rightarrow> (res_ok r \<or> status r = 302,
                             s\<lparr>fetches := fetches s + 2,
                               trace := trace s @ [Fetch (probe_request srv), Log ''Fetch retry'', Sleep 1000,
                                                   Fetch (probe_request srv)]\<rparr>)
              | NetFail m2 \<Rightarrow> (False,
                             s\<lparr>fetches := fetches s + 2,
                               trace := trace s @ [Fetch (probe_request srv), Log ''Fetch retry'', Sleep 1000,
                                                   Fetch (probe_request srv)]\<rparr>))))
   \<and> (\<forall>err. getServerConfig e code = Inl err \<longrightarrow> healthCheck e code s = (False, s))
   \<and> (\<forall>m1 m2. net e (fetches s) = NetFail m1 \<longrightarrow> net e (fetches s + 1) = NetFail m2 \<longrightarrow>
         \<not> fst (healthCheck e code s))
   \<and> (\<forall>r. net e (fetches s) = Reply r \<longrightarrow> \<not> (200 \<le> status r \<and> status r \<le> 399) \<longrightarrow>
         \<not> fst (healthCheck e code s))
   \<and> (\<forall>m r. net e (fetches s) = NetFail m \<longrightarrow> net e (fetches s + 1) = Reply r \<longrightarrow>
         \<not> (200 \<le> status r \<and> status r \<le> 399) \<longrightarrow> \<not> fst (healthCheck e code s))
   \<and> (\<forall>sched. dom (fst (healthCheckAll e sched s)) = cfg_code ` set (cfg_servers e))
   \<and> (\<forall>sched. \<exists>g.
         inj_on g {i. i < length (cfg_servers e) \<and> first_failed e (fetches s) i} \<and>
         g ` {i. i < length (cfg_servers e) \<and> first_failed e (fetches s) i}
           = {fetches s + length (cfg_servers e) ..<
              fetches s + length (cfg_servers e)
                + card {i. i < length (cfg_servers e) \<and> first_failed e (fetches s) i}} \<and>
         fetches (snd (healthCheckAll e sched s))
           = fetches s + length (cfg_servers e)
               + card {i. i < length (cfg_servers e) \<and> first_failed e (fetches s) i} \<and>
         (distinct (map cfg_code (cfg_servers e)) \<longrightarrow>
            (\<forall>i < length (cfg_servers e).
               fst (healthCheckAll e sched s) (cfg_code (cfg_servers e ! i)) =
                 Some (outcome_ok e (if first_failed e (fetches s) i then g i else fetches s + i)))))
   \<and> (\<forall>sched i r. distinct (map cfg_code (cfg_servers e)) \<longrightarrow> i < length (cfg_servers e) \<longrightarrow>
         net e (fetches s + i) = Reply r \<longrightarrow>
         fst (healthCheckAll e sched s) (cfg_code (cfg_servers e ! i)) = Some (res_ok r \<or> status r = 302))
   \<and> (\<forall>sched srv. cfg_servers e = [srv] \<longrightarrow>
         fst (healthCheckAll e sched s) (cfg_code srv) = Some (fst (healthCheck e (cfg_code srv) s)))"
proof -
  note cf = healthCheck_two_attempts [of e code s]
  have p2: "\<forall>err. getServerConfig e code = Inl err \<longrightarrow> healthCheck e code s = (False, s)"
    by (simp add: healthCheck_def)
  have p3: "\<forall>m1 m2. net e (fetches s) = NetFail m1 \<longrightarrow> net e (fetches s + 1) = NetFail m2 \<longrightarrow>
         \<not> fst (healthCheck e code s)"
    by (auto simp add: healthCheck_two_attempts split: sum.splits)
  have p4: "\<forall>r. net e (fetches s) = Reply r \<longrightarrow> \<not> (200 \<le> status r \<and> status r \<le> 399) \<longrightarrow>
         \<not> fst (healthCheck e code s)"
    by (auto simp add: healthCheck_two_attempts res_ok_def split: sum.splits)
  have p5: "\<forall>m r. net e (fetches s) = NetFail m \<longrightarrow> net e (fetches s + 1) = Reply r \<longrightarrow>
         \<not> (200 \<le> status r \<and> status r \<le> 399) \<longrightarrow> \<not> fst (healthCheck e code s)"
    by (auto simp add: healthCheck_two_attempts res_ok_def split: sum.splits)
  have p6: "\<forall>sched. dom (fst (healthCheckAll e sched s)) = cfg_code ` set (cfg_servers e)"
    by (simp add: healthCheckAll_pool(1))
  have p7: "\<forall>sched. \<exists>g.
         inj_on g {i. i < length (cfg_servers e) \<and> first_failed e (fetches s) i} \<and>
         g ` {i. i < length (cfg_servers e) \<and> first_failed e (fetches s) i}
           = {fetches s + length (cfg_servers e) ..<
              fetches s + length (cfg_servers e)
                + card {i. i < length (cfg_servers e) \<and> first_failed e (fetches s) i}} \<and>
         fetches (snd (healthCheckAll e sched s))
           = fetches s + length (cfg_servers e)
               + card {i. i < length (cfg_servers e) \<and> first_failed e (fetches s) i} \<and>
         (distinct (map cfg_code (cfg_servers e)) \<longrightarrow>
            (\<forall>i < length (cfg_servers e).
               fst (healthCheckAll e sched s) (cfg_code (cfg_servers e ! i)) =
                 Some (outcome_ok e (if first_failed e (fetches s) i then g i else fetches s + i))))"
    using healthCheckAll_pool(2) [of e s] by blast
  have p8: "fst (healthCheckAll e sched s) (cfg_code (cfg_servers e ! i)) = Some (res_ok r \<or> status r = 302)"
    if d: "distinct (map cfg_code (cfg_servers e))" and i: "i < length (cfg_servers e)"
      and r: "net e (fetches s + i) = Reply r" for sched i r
  proof -
    from healthCheckAll_pool(2) [of e s sched] d i obtain g where
      "fst (healthCheckAll e sched s) (cfg_code (cfg_servers e ! i)) =
         Some (outcome_ok e (if first_failed e (fetches s) i then g i else fetches s + i))"
      by blast
    with r show ?thesis by (simp add: first_failed_def outcome_ok_def)
  qed
  have p9: "fst (healthCheckAll e sched s) (cfg_code srv) = Some (fst (healthCheck e (cfg_code srv) s))"
    if one: "cfg_servers e = [srv]" for sched srv
  proof -
    let ?F = "{i. i < length (cfg_servers e) \<and> first_failed e (fetches s) i}"
    from healthCheckAll_pool(2) [of e s sched] one obtain g where
      img: "g ` ?F = {fetches s + 1 ..< fetches s + 1 + card ?F}"
      and v: "fst (healthCheckAll e sched s) (cfg_code srv) =
         Some (outcome_ok e (if first_failed e (fetches s) 0 then g 0 else fetches s + 0))"
      by auto
    have cfgd: "getServerConfig e (cfg_code srv) = Inr srv"
      using one by (simp add: getServerConfig_def)
    show ?thesis
    proof (cases "first_failed e (fetches s) 0")
      case False
      with v cfgd show ?thesis
        by (auto simp add: healthCheck_two_attempts first_failed_def outcome_ok_def
                 split: fetch_outcome.splits)
    next
      case True
      with one have F: "?F = {0}" by auto
      with img have "g 0 = fetches s + 1" by auto
      with v True cfgd show ?thesis
        by (auto simp add: healthCheck_two_attempts first_failed_def outcome_ok_def
                 split: fetch_outcome.splits)
    qed
  qed
  have p8': "\<forall>sched i r. distinct (map cfg_code (cfg_servers e)) \<longrightarrow> i < length (cfg_servers e) \<longrightarrow>
         net e (fetches s + i) = Reply r \<longrightarrow>
         fst (healthCheckAll e sched s) (cfg_code (cfg_servers e ! i)) = Some (res_ok r \<or> status r = 302)"
    using p8 by blast
  have p9': "\<forall>sched srv. cfg_servers e = [srv] \<longrightarrow>
         fst (healthCheckAll e sched s) (cfg_code srv) = Some (fst (healthCheck e (cfg_code srv) s))"
    using p9 by blast
  show ?thesis
    using cf p2 p3 p4 p5 p6 p7 p8' p9' by (intro conjI) assumption+
qed

theorem healthCheck_total_witness:
  "\<not> fst (healthCheck env0 ''ru'' state0)
   \<and> fst (healthCheck env_ok ''ru'' state0)
   \<and> healthCheck env0 ''de'' state0 = (False, state0)
   \<and> \<not> fst (healthCheck env_500 ''ru'' state0)
   \<and> dom (fst (healthCheckAll env_two [1, 0, 0, 0] state0)) = {''ru'', ''nl''}
   \<and> fst (healthCheckAll env_two [1, 0, 0, 0] state0) ''ru'' = Some False
   \<and> fst (healthCheckAll env_two [1, 0, 0, 0] state0) ''nl'' = Some True
   \<and> fst (healthCheckAll env_two [] state0) ''ru'' = Some False
   \<and> fst (healthCheckAll env_two [] state0) ''nl'' = Some True
   \<and> fetches (snd (healthCheckAll env_two [] state0)) = 3"
proof -
  have n0: "net env0 (fetches state0) = NetFail ''down''" "net env0 (fetches state0 + 1) = NetFail ''down''"
    by (simp_all add: env0_def state0_def script_def)
  have c: "getServerConfig env0 ''de'' = Inl (ConfigNotFound ''de'')"
    by (simp add: getServerConfig_def env0_def cfg_ru_def)
  have n5: "net env_500 (fetches state0) = Reply \<lparr>status = 500, set_cookie = None, body = NotJson\<rparr>"
    by (simp add: env_500_def env0_def state0_def script_def reply_def)
  have st: "\<not> (200 \<le> status \<lparr>status = 500, set_cookie = None, body = NotJson\<rparr>
              \<and> status \<lparr>status = 500, set_cookie = None, body = NotJson\<rparr> \<le> 399)"
    by simp
  note w = healthCheck_total [of env0 "''ru''" state0]
  from w [THEN conjunct2, THEN conjunct2, THEN conjunct1, rule_format, OF n0]
  have a: "\<not> fst (healthCheck env0 ''ru'' state0)" .
  have cok: "getServerConfig env_ok ''ru'' = Inr cfg_ru"
    by (simp add: getServerConfig_def env_ok_def env0_def cfg_ru_def)
  have nok: "net env_ok (fetches state0) = Reply \<lparr>status = 200, set_cookie = None, body = Json True None JNull\<rparr>"
    by (simp add: env_ok_def env0_def state0_def script_def ok_reply_def reply_def)
  from healthCheck_total [of env_ok "''ru''" state0, THEN conjunct1] cok nok
  have a2: "fst (healthCheck env_ok ''ru'' state0)" by (simp add: res_ok_def)
  from healthCheck_total [of env0 "''de''" state0, THEN conjunct2, THEN conjunct1, rule_format, OF c]
  have b: "healthCheck env0 ''de'' state0 = (False, state0)" .
  from healthCheck_total [of env_500 "''ru''" state0, THEN conjunct2, THEN conjunct2, THEN conjunct2,
        THEN conjunct1, rule_format, OF n5 st]
  have d: "\<not> fst (healthCheck env_500 ''ru'' state0)" .
  let ?F = "{i. i < length (cfg_servers env_two) \<and> first_failed env_two (fetches state0) i}"
  have srvs: "cfg_servers env_two = [cfg_ru, cfg_nl]" by (simp add: env_two_def)
  have f0: "fetches state0 = 0" by (simp add: state0_def)
  have ff0: "first_failed env_two (fetches state0) 0" and ff1: "\<not> first_failed env_two (fetches state0) 1"
    by (simp_all add: first_failed_def env_two_def script_def reply_def f0)
  have F: "?F = {0}"
  proof -
    have "i < Suc (Suc 0) \<Longrightarrow> i = 0 \<or> i = Suc 0" for i :: nat by auto
    with ff0 ff1 show ?thesis unfolding srvs by (auto simp del: One_nat_def) fastforce
  qed
  have dist: "distinct (map cfg_code (cfg_servers env_two))"
    by (simp add: srvs cfg_ru_def cfg_nl_def)
  have o2: "\<not> outcome_ok env_two 2" and o1: "outcome_ok env_two 1"
    by (simp_all add: outcome_ok_def env_two_def script_def reply_def res_ok_def)
  have codes: "cfg_code (cfg_servers env_two ! 0) = ''ru''" "cfg_code (cfg_servers env_two ! 1) = ''nl''"
    by (simp_all add: srvs cfg_ru_def cfg_nl_def)
  have all: "dom (fst (healthCheckAll env_two sched state0)) = {''ru'', ''nl''}
     \<and> fst (healthCheckAll env_two sched state0) ''ru'' = Some False
     \<and> fst (healthCheckAll env_two sched state0) ''nl'' = Some True
     \<and> fetches (snd (healthCheckAll env_two sched state0)) = 3" for sched
  proof -
    note h = healthCheck_total [of env_two "''ru''" state0, THEN conjunct2, THEN conjunct2, THEN conjunct2,
               THEN conjunct2, THEN conjunct2]
    from h [THEN conjunct1, rule_format, of sched]
    have dm: "dom (fst (healthCheckAll env_two sched state0)) = {''ru'', ''nl''}"
      by (auto simp add: srvs cfg_ru_def cfg_nl_def)
    from h [THEN conjunct2, THEN conjunct1, rule_format, of sched] obtain g where
      img: "g ` ?F = {fetches state0 + length (cfg_servers env_two) ..<
                      fetches state0 + length (cfg_servers env_two) + card ?F}"
      and cnt: "fetches (snd (healthCheckAll env_two sched state0))
                  = fetches state0 + length (cfg_servers env_two) + card ?F"
      and val: "distinct (map cfg_code (cfg_servers env_two)) \<longrightarrow>
            (\<forall>i < length (cfg_servers env_two).
               fst (healthCheckAll env_two sched state0) (cfg_code (cfg_servers env_two ! i)) =
                 Some (outcome_ok env_two (if first_failed env_two (fetches state0) i then g i
                                            else fetches state0 + i)))"
      by blast
    from img have g0: "g 0 = 2" unfolding F by (simp add: srvs f0)
    from val dist have v: "\<And>i. i < length (cfg_servers env_two) \<Longrightarrow>
               fst (healthCheckAll env_two sched state0) (cfg_code (cfg_servers env_two ! i)) =
                 Some (outcome_ok env_two (if first_failed env_two (fetches state0) i then g i
                                            else fetches state0 + i))"
      by blast
    have "fst (healthCheckAll env_two sched state0) ''ru'' = Some False"
      using v [of 0] ff0 g0 o2 codes by (simp add: srvs)
    moreover have "fst (healthCheckAll env_two sched state0) ''nl'' = Some True"
      using v [of 1] ff1 o1 codes by (simp add: srvs f0)
    moreover have "fetches (snd (healthCheckAll env_two sched state0)) = 3"
      using cnt unfolding F by (simp add: srvs f0)
    ultimately show ?thesis using dm by simp
  qed
  from a a2 b d all [of "[1, 0, 0, 0]"] all [of "[]"] show ?thesis by simp
qed

subsection \<open>Missing references\<close>




subsection \<open>The expiry sweep\<close>

text \<open>
  Whatever the panel answers to the removals, one tick leaves the subscriptions as they
  were except that every listed row is inactive.
\<close>

lemma sweepLoop_subscriptions:
  "subscriptions (sweepLoop e rows s) =
     map (\<lambda>r. if sub_id r \<in> set (map (\<lambda>x. sub_id (fst x)) rows) then r\<lparr>sub_is_active := 0\<rparr> else r)
       (subscriptions s)"
proof (induction rows arbitrary: s)
  case Nil
  show ?case by simp
next
  case (Cons r rest)
  obtain rr s' where rc: "removeClient e (srv_code (snd r)) (sub_client_uuid (fst r)) s = (rr, s')"
    by (cases "removeClient e (srv_code (snd r)) (sub_client_uuid (fst r)) s") auto
  from removeClient_same_db [OF rc same_db_refl] have sd: "subscriptions s' = subscriptions s"
    by (simp add: same_db_def)
  let ?s1 = "case rr of Inl err \<Rightarrow> emit (Log ''Failed to remove expired client'') s' | Inr u \<Rightarrow> s'"
  have s1: "subscriptions ?s1 = subscriptions s"
    using sd by (cases rr) (simp_all add: emit_def)
  let ?s4 = "emit (Log ''Expired subscription deactivated'')
               (if tg_ok e (sub_telegram_id (fst r))
                then emit (SendMessage (sub_telegram_id (fst r))) (deactivateSubscription (sub_id (fst r)) ?s1)
                else deactivateSubscription (sub_id (fst r)) ?s1)"
  have s4: "subscriptions ?s4 =
              map (\<lambda>x. if sub_id x = sub_id (fst r) then x\<lparr>sub_is_active := 0\<rparr> else x) (subscriptions s)"
    using s1 by (simp add: emit_def deactivateSubscription_def)
  have step: "sweepLoop e (r # rest) s = sweepLoop e rest ?s4"
    using rc by (simp add: Let_def)
  show ?case
    unfolding step Cons.IH s4
    by (auto simp add: comp_def)
qed

lemma expirySweep_deactivates_listed:
  "r \<in> set (getExpiredSubscriptions e s) \<Longrightarrow> sub \<in> set (subscriptions (expirySweep e s)) \<Longrightarrow>
   sub_id sub = sub_id (fst r) \<Longrightarrow> sub_is_active sub = 0"
  unfolding expirySweep_def sweepLoop_subscriptions
  by (auto split: if_splits)

text \<open>
  C6 (the code departs from the claim). The claim is about every active subscription
  whose expiry lies in the past. The listing compares the stored text of
  \<open>toISOString()\<close>, which has a \<open>T\<close> after the date, with the text of
  \<open>datetime('now')\<close>, which has a space there. On the day of the expiry the stored text
  is therefore the larger one: at 12:00:00 a subscription that expired at 10:00:00 of the
  same day is not listed, the tick changes nothing, and the subscription is still among
  the user's active ones. It is listed from the next midnight on.
\<close>

theorem expirySweep_same_day_due:
  "sub_expires_at sub_due = ''2026-11-01T10:00:00.000Z''
   \<and> sql_now_text env_ok = ''2026-11-01 12:00:00''
   \<and> sub_is_active sub_due = 1
   \<and> getExpiredSubscriptions env_ok state_due = []
   \<and> expirySweep env_ok state_due = state_due
   \<and> map fst (getActiveSubscriptions 42 (expirySweep env_ok state_due)) = [sub_due]
   \<and> map fst (getExpiredSubscriptions (env_ok\<lparr>sql_now_text := ''2026-11-02 00:00:00''\<rparr>) state_due) = [sub_due]"
  by (simp add: expirySweep_def input_defs store_defs sub_due_def state_due_def)

subsection \<open>Double activation\<close>

text \<open>
  C2 (as it stands, refuted). Neither path reads the payment again before it
  activates. The poll has read the pending list and the manual check has read the
  payment, both finding it pending; the poll then activates it; the manual check goes on
  with the row it read and activates it a second time. One payment, two subscriptions.
\<close>

theorem double_activation_counterexample:
  "map pay_id (payments state1) = [1]
   \<and> subscriptions state1 = []
   \<and> getPendingPayments state1 = [pay1]
   \<and> fst (checkRead ctx_check state1) = Some (''pay_1'', pay1)
   \<and> map sub_id (subscriptions
        (snd (checkResume env_ok (''pay_1'', pay1)
               (pollLoop env_ok (getPendingPayments state1) (snd (checkRead ctx_check state1))))))
      = [1, 2]"
  by (simp add: input_defs store_defs flow_defs panel_defs ctx_check_def upper_char_def)

text \<open>What an activation that created a subscription has written.\<close>

lemma find_SomeD: "find P xs = Some x \<Longrightarrow> P x \<and> x \<in> set xs"
  by (induction xs) (auto split: if_splits)

lemma activateSubscription_writes:
  assumes run: "activateSubscription e pmt s = (r, s')"
      and ch: "subscriptions s' \<noteq> subscriptions s"
  shows "(\<exists>row. subscriptions s' = subscriptions s @ [row]) \<and>
         payments s' = map (\<lambda>p. if pay_id p = pay_id pmt
                                  then p\<lparr>pay_status := Completed, pay_completed_at := Some (sql_now e)\<rparr>
                                  else p) (payments s)"
proof (cases "bot_set s")
  case False
  with run ch show ?thesis by (simp add: activateSubscription_def)
next
  case b: True
  show ?thesis
  proof (cases "getServerById (pay_server_id pmt) s")
    case None
    with run ch b show ?thesis by (auto simp add: activateSubscription_def emit_def)
  next
    case (Some server)
    note sv = this
    show ?thesis
    proof (cases "getTariff (srv_code server) (pay_tariff_id pmt)")
      case None
      with run ch b sv show ?thesis by (auto simp add: activateSubscription_def emit_def)
    next
      case (Some t)
      note tf = this
      let ?ac = "addClient e (srv_code server) (uuidv4 e (uuids s))
                 (tgEmail (pay_telegram_id pmt) (srv_code server) (uuidv4 e (uuids s)))
                 (t_maxDevices t) 0 (expiryMs e t) (s\<lparr>uuids := uuids s + 1\<rparr>)"
      obtain ra s1 where ac: "?ac = (ra, s1)" by (cases ?ac) auto
      from addClient_same_db [OF ac same_db_refl]
      have sd: "subscriptions s1 = subscriptions s" "payments s1 = payments s"
        by (simp_all add: same_db_def)
      show ?thesis
      proof (cases ra)
        case (Inl err)
        with run b sv tf ac have "s' = s1" by (simp add: activateSubscription_def Let_def)
        with sd ch show ?thesis by simp
      next
        case (Inr u)
        let ?cs = "createSubscription e (pay_telegram_id pmt) (srv_id server) (uuidv4 e (uuids s))
                     (tgEmail (pay_telegram_id pmt) (srv_code server) (uuidv4 e (uuids s)))
                     (t_id t) (toISOString e (expiryMs e t)) (t_maxDevices t) 0 s1"
        obtain rc s2 where cs: "?cs = (rc, s2)" by (cases ?cs) auto
        show ?thesis
        proof (cases rc)
          case (Inl err)
          with cs have "s2 = s1"
            by (auto simp add: createSubscription_def Let_def split: if_splits)
          with run b sv tf ac Inr cs Inl have "s' = s1"
            by (simp add: activateSubscription_def Let_def)
          with sd ch show ?thesis by simp
        next
          case (Inr sub)
          with cs have s2: "subscriptions s2 = subscriptions s1 @ [sub]" "payments s2 = payments s1"
            by (auto simp add: createSubscription_def Let_def split: if_splits)
          from run b sv tf ac \<open>ra = Inr u\<close> cs Inr
          have "subscriptions s' = subscriptions s2 \<and>
                payments s' = map (\<lambda>p. if pay_id p = pay_id pmt
                                  then p\<lparr>pay_status := Completed, pay_completed_at := Some (sql_now e)\<rparr>
                                  else p) (payments s2)"
            by (auto simp add: activateSubscription_def Let_def completePayment_def markTrialUsed_def
                  emit_def split: sum.splits if_splits)
          with s2 sd show ?thesis by simp
        qed
      qed
    qed
  qed
qed

lemma checkRead_same_db: "checkRead c s = (r, s1) \<Longrightarrow> same_db s s1"
  by (auto simp add: checkRead_def Let_def split: option.splits if_splits)

text \<open>An activation adds at most one subscription, a poll tick at most one per pending row.\<close>

lemma activateSubscription_one_more:
  "activateSubscription e pmt s = (r, s') \<Longrightarrow> length (subscriptions s') \<le> length (subscriptions s) + 1"
proof (cases "subscriptions s' = subscriptions s")
  case True
  then show ?thesis by simp
next
  case False
  assume "activateSubscription e pmt s = (r, s')"
  from activateSubscription_writes [OF this False] show ?thesis by auto
qed

lemma pollLoop_bound:
  "length (subscriptions (pollLoop e ps s)) \<le> length (subscriptions s) + length ps"
proof (induction ps arbitrary: s)
  case Nil
  show ?case by simp
next
  case (Cons p rest)
  show ?case
  proof (cases "\<exists>l. pay_invoice_id p = Some l \<and> l \<noteq> [] \<and> checkYooMoneyPayment e l")
    case False
    then have "pollLoop e (p # rest) s = pollLoop e rest s"
      by (auto split: option.splits)
    with Cons.IH [of s] show ?thesis by simp
  next
    case True
    then obtain l where l: "pay_invoice_id p = Some l" "l \<noteq> []" "checkYooMoneyPayment e l" by blast
    obtain r s1 where ac: "activateSubscription e p (emit (Log ''Polling: payment confirmed'') s) = (r, s1)"
      by (cases "activateSubscription e p (emit (Log ''Polling: payment confirmed'') s)") auto
    from activateSubscription_one_more [OF ac]
    have le: "length (subscriptions s1) \<le> length (subscriptions s) + 1" by (simp add: emit_def)
    show ?thesis
    proof (cases r)
      case (Inl err)
      with l ac have "pollLoop e (p # rest) s = pollLoop e rest (emit (Log ''Polling check failed'') s1)"
        by simp
      with Cons.IH [of "emit (Log ''Polling check failed'') s1"] le show ?thesis
        by (simp add: emit_def)
    next
      case (Inr u)
      with l ac have "pollLoop e (p # rest) s = pollLoop e rest s1" by simp
      with Cons.IH [of s1] le show ?thesis by simp
    qed
  qed
qed

text \<open>
  C2 (amended). Each path tests the status when it reads the payment: the poll takes
  only pending rows, and the manual check goes on only with a pending row (otherwise it
  changes no table). Neither path reads the payment again: the manual check, resumed in
  whatever state the store then is, calls \<open>activateSubscription\<close> on the row it read as
  soon as the gateway reports the payment; the poll walks the list it read and, for a row
  with a label that the gateway reports as paid, calls \<open>activateSubscription\<close> on that
  row, whatever the state then is (so at most once per row and tick). An activation that
  created a subscription created exactly one and left every payment with that id
  completed, so that no later read of either path yields that payment again.
\<close>

theorem activation_reads_pending:
  "(\<forall>p \<in> set (getPendingPayments s). pay_status p = Pending \<and> p \<in> set (payments s))
   \<and> (\<forall>l p s1. checkRead c s = (Some (l, p), s1) \<longrightarrow>
          pay_status p = Pending \<and> p \<in> set (payments s) \<and> pay_invoice_id p = Some l \<and> same_db s s1)
   \<and> (fst (checkRead c s) = None \<longrightarrow> same_db s (snd (handleCheckPayment e c s)))
   \<and> (\<forall>r s'. activateSubscription e pmt s = (r, s') \<longrightarrow> subscriptions s' \<noteq> subscriptions s \<longrightarrow>
          length (subscriptions s') = length (subscriptions s) + 1
        \<and> (\<forall>q \<in> set (payments s'). pay_id q = pay_id pmt \<longrightarrow> pay_status q = Completed)
        \<and> (\<forall>q \<in> set (getPendingPayments s'). pay_id q \<noteq> pay_id pmt)
        \<and> (\<forall>c' l q s1. checkRead c' s' = (Some (l, q), s1) \<longrightarrow> pay_id q \<noteq> pay_id pmt))
   \<and> (\<forall>l p s1. checkRead c s = (Some (l, p), s1) \<longrightarrow>
          handleCheckPayment e c s = checkResume e (l, p) s1)
   \<and> (\<forall>l p s2. checkResume e (l, p) s2 =
          (if checkYooMoneyPayment e l then activateSubscription e p s2
           else (Inr (), emit (CbAnswer NotPaidYet) s2)))
   \<and> pollPendingPayments e s = pollLoop e (getPendingPayments s) s
   \<and> (\<forall>p rest l s2. pay_invoice_id p = Some l \<longrightarrow> l \<noteq> [] \<longrightarrow> checkYooMoneyPayment e l \<longrightarrow>
          pollLoop e (p # rest) s2 =
            pollLoop e rest
              (case activateSubscription e p (emit (Log ''Polling: payment confirmed'') s2) of
                 (Inl err, s3) \<Rightarrow> emit (Log ''Polling check failed'') s3
               | (Inr u, s3) \<Rightarrow> s3))
   \<and> (\<forall>p rest s2.
          (pay_invoice_id p = None \<or> pay_invoice_id p = Some [] \<or>
           (\<exists>l. pay_invoice_id p = Some l \<and> \<not> checkYooMoneyPayment e l)) \<longrightarrow>
          pollLoop e (p # rest) s2 = pollLoop e rest s2)
   \<and> length (subscriptions (pollPendingPayments e s))
        \<le> length (subscriptions s) + length (getPendingPayments s)"
proof -
  have p1: "\<forall>p \<in> set (getPendingPayments s). pay_status p = Pending \<and> p \<in> set (payments s)"
    by (simp add: getPendingPayments_def)
  have p2: "\<forall>l p s1. checkRead c s = (Some (l, p), s1) \<longrightarrow>
          pay_status p = Pending \<and> p \<in> set (payments s) \<and> pay_invoice_id p = Some l \<and> same_db s s1"
    by (auto simp add: checkRead_def Let_def getPaymentByInvoiceId_def
             split: option.splits if_splits dest: find_SomeD)
  have p3: "fst (checkRead c s) = None \<longrightarrow> same_db s (snd (handleCheckPayment e c s))"
    by (auto simp add: handleCheckPayment_def split: prod.splits option.splits dest: checkRead_same_db)
  have p4: "length (subscriptions s') = length (subscriptions s) + 1
        \<and> (\<forall>q \<in> set (payments s'). pay_id q = pay_id pmt \<longrightarrow> pay_status q = Completed)
        \<and> (\<forall>q \<in> set (getPendingPayments s'). pay_id q \<noteq> pay_id pmt)
        \<and> (\<forall>c' l q s1. checkRead c' s' = (Some (l, q), s1) \<longrightarrow> pay_id q \<noteq> pay_id pmt)"
    if run: "activateSubscription e pmt s = (r, s')" and ch: "subscriptions s' \<noteq> subscriptions s"
    for r s'
  proof -
    note w = activateSubscription_writes [OF run ch]
    from w have len: "length (subscriptions s') = length (subscriptions s) + 1" by auto
    from w have fin: "\<forall>q \<in> set (payments s'). pay_id q = pay_id pmt \<longrightarrow> pay_status q = Completed"
      by auto
    from fin have pend: "\<forall>q \<in> set (getPendingPayments s'). pay_id q \<noteq> pay_id pmt"
      by (auto simp add: getPendingPayments_def)
    have rd: "\<forall>c' l q s1. checkRead c' s' = (Some (l, q), s1) \<longrightarrow> pay_id q \<noteq> pay_id pmt"
    proof (intro allI impI)
      fix c' l q s1
      assume "checkRead c' s' = (Some (l, q), s1)"
      then have "pay_status q = Pending \<and> q \<in> set (payments s')"
        by (auto simp add: checkRead_def Let_def getPaymentByInvoiceId_def
                 split: option.splits if_splits dest: find_SomeD)
      with fin show "pay_id q \<noteq> pay_id pmt" by auto
    qed
    from len fin pend rd show ?thesis by blast
  qed
  have p5: "\<forall>l p s1. checkRead c s = (Some (l, p), s1) \<longrightarrow>
          handleCheckPayment e c s = checkResume e (l, p) s1"
    by (simp add: handleCheckPayment_def)
  have p6: "\<forall>l p s2. checkResume e (l, p) s2 =
          (if checkYooMoneyPayment e l then activateSubscription e p s2
           else (Inr (), emit (CbAnswer NotPaidYet) s2))"
    by (simp add: checkResume_def)
  have p7: "pollPendingPayments e s = pollLoop e (getPendingPayments s) s"
    by (simp add: pollPendingPayments_def)
  have p8: "\<forall>p rest l s2. pay_invoice_id p = Some l \<longrightarrow> l \<noteq> [] \<longrightarrow> checkYooMoneyPayment e l \<longrightarrow>
          pollLoop e (p # rest) s2 =
            pollLoop e rest
              (case activateSubscription e p (emit (Log ''Polling: payment confirmed'') s2) of
                 (Inl err, s3) \<Rightarrow> emit (Log ''Polling check failed'') s3
               | (Inr u, s3) \<Rightarrow> s3)"
    by (simp split: prod.splits sum.splits)
  have p9: "\<forall>p rest s2.
          (pay_invoice_id p = None \<or> pay_invoice_id p = Some [] \<or>
           (\<exists>l. pay_invoice_id p = Some l \<and> \<not> checkYooMoneyPayment e l)) \<longrightarrow>
          pollLoop e (p # rest) s2 = pollLoop e rest s2"
    by auto
  have p10: "length (subscriptions (pollPendingPayments e s))
        \<le> length (subscriptions s) + length (getPendingPayments s)"
    unfolding pollPendingPayments_def by (rule pollLoop_bound)
  from p1 p2 p3 p4 have old: "(\<forall>p \<in> set (getPendingPayments s). pay_status p = Pending \<and> p \<in> set (payments s))
   \<and> (\<forall>l p s1. checkRead c s = (Some (l, p), s1) \<longrightarrow>
          pay_status p = Pending \<and> p \<in> set (payments s) \<and> pay_invoice_id p = Some l \<and> same_db s s1)
   \<and> (fst (checkRead c s) = None \<longrightarrow> same_db s (snd (handleCheckPayment e c s)))
   \<and> (\<forall>r s'. activateSubscription e pmt s = (r, s') \<longrightarrow> subscriptions s' \<noteq> subscriptions s \<longrightarrow>
          length (subscriptions s') = length (subscriptions s) + 1
        \<and> (\<forall>q \<in> set (payments s'). pay_id q = pay_id pmt \<longrightarrow> pay_status q = Completed)
        \<and> (\<forall>q \<in> set (getPendingPayments s'). pay_id q \<noteq> pay_id pmt)
        \<and> (\<forall>c' l q s1. checkRead c' s' = (Some (l, q), s1) \<longrightarrow> pay_id q \<noteq> pay_id pmt))" by blast
  show ?thesis
    using old p5 p6 p7 p8 p9 p10 by (intro conjI) blast+
qed

theorem activation_reads_pending_witness:
  "fst (checkRead ctx_check state1) = Some (''pay_1'', pay1)
   \<and> pay_status pay1 = Pending
   \<and> length (subscriptions (snd (activateSubscription env_ok pay1 state1))) = 1
   \<and> getPendingPayments (snd (activateSubscription env_ok pay1 state1)) = []
   \<and> fst (checkRead ctx_check (snd (activateSubscription env_ok pay1 state1))) = None
   \<and> same_db (snd (activateSubscription env_ok pay1 state1))
        (snd (handleCheckPayment env_ok ctx_check (snd (activateSubscription env_ok pay1 state1))))
   \<and> handleCheckPayment env_ok ctx_check state1
        = activateSubscription env_ok pay1 (snd (checkRead ctx_check state1))
   \<and> length (subscriptions (snd (handleCheckPayment env_ok ctx_check state1))) = 1
   \<and> pollPendingPayments env_ok state1
        = pollLoop env_ok []
            (case activateSubscription env_ok pay1 (emit (Log ''Polling: payment confirmed'') state1) of
               (Inl err, s3) \<Rightarrow> emit (Log ''Polling check failed'') s3
             | (Inr u, s3) \<Rightarrow> s3)
   \<and> map pay_status (payments (pollPendingPayments env_ok state1)) = [Completed]
   \<and> length (subscriptions (pollPendingPayments env_ok state1)) = 1"
proof -
  let ?s' = "snd (activateSubscription env_ok pay1 state1)"
  let ?s1 = "snd (checkRead ctx_check state1)"
  have rd1: "fst (checkRead ctx_check state1) = Some (''pay_1'', pay1)"
    by (simp add: checkRead_def ctx_check_def input_defs store_defs Let_def)
  then have rd: "checkRead ctx_check state1 = (Some (''pay_1'', pay1), ?s1)"
    by (simp add: prod_eq_iff)
  from activation_reads_pending [of state1 ctx_check, THEN conjunct2, THEN conjunct1, rule_format, OF rd]
  have a: "pay_status pay1 = Pending" by blast
  have run: "activateSubscription env_ok pay1 state1 = (fst (activateSubscription env_ok pay1 state1), ?s')"
    by simp
  have ch: "subscriptions ?s' \<noteq> subscriptions state1"
    by (simp add: input_defs panel_defs store_defs flow_defs)
  note w = activation_reads_pending [of state1 ctx_check env_ok pay1, THEN conjunct2, THEN conjunct2,
              THEN conjunct2, THEN conjunct1, rule_format, OF run ch]
  from w have len: "length (subscriptions ?s') = length (subscriptions state1) + 1" by blast
  from w have pend: "\<forall>q \<in> set (getPendingPayments ?s'). pay_id q \<noteq> pay_id pay1" by blast
  have ids: "\<forall>q \<in> set (payments ?s'). pay_id q = pay_id pay1"
    by (simp add: input_defs panel_defs store_defs flow_defs)
  have "set (getPendingPayments ?s') \<subseteq> set (payments ?s')"
    by (simp add: getPendingPayments_def)
  with pend ids have b: "getPendingPayments ?s' = []"
    by (metis all_not_in_conv set_empty subsetD)
  have c: "fst (checkRead ctx_check ?s') = None"
  proof (cases "fst (checkRead ctx_check ?s')")
    case None
    then show ?thesis .
  next
    case (Some lq)
    then have "checkRead ctx_check ?s' = (Some (fst lq, snd lq), snd (checkRead ctx_check ?s'))"
      by (simp add: prod_eq_iff)
    from w [THEN conjunct2, THEN conjunct2, THEN conjunct2, rule_format, OF this]
      activation_reads_pending [of ?s' ctx_check, THEN conjunct2, THEN conjunct1, rule_format, OF this]
      ids
    show ?thesis by blast
  qed
  from activation_reads_pending [of ?s' ctx_check env_ok, THEN conjunct2, THEN conjunct2, THEN conjunct1] c
  have d: "same_db ?s' (snd (handleCheckPayment env_ok ctx_check ?s'))" by blast
  have l0: "length (subscriptions state1) = 0" by (simp add: input_defs)
  have paid: "checkYooMoneyPayment env_ok ''pay_1''"
    by (simp add: checkYooMoneyPayment_def env_ok_def env0_def)
  note tail = activation_reads_pending [of state1 ctx_check env_ok pay1, THEN conjunct2, THEN conjunct2,
              THEN conjunct2, THEN conjunct2]
  from tail [THEN conjunct1, rule_format, OF rd]
  have h1: "handleCheckPayment env_ok ctx_check state1 = checkResume env_ok (''pay_1'', pay1) ?s1" .
  from tail [THEN conjunct2, THEN conjunct1, rule_format, of "''pay_1''" pay1 ?s1] paid
  have h2: "checkResume env_ok (''pay_1'', pay1) ?s1 = activateSubscription env_ok pay1 ?s1" by simp
  from h1 h2 have h: "handleCheckPayment env_ok ctx_check state1 = activateSubscription env_ok pay1 ?s1"
    by simp
  have hl: "length (subscriptions (snd (activateSubscription env_ok pay1 ?s1))) = 1"
    by (simp add: input_defs panel_defs store_defs flow_defs ctx_check_def upper_char_def)
  have pp: "getPendingPayments state1 = [pay1]" by (simp add: input_defs store_defs)
  have inv: "pay_invoice_id pay1 = Some ''pay_1''" and ne: "''pay_1'' \<noteq> []" by (simp_all add: pay1_def)
  from tail [THEN conjunct2, THEN conjunct2, THEN conjunct1] pp
  have q1: "pollPendingPayments env_ok state1 = pollLoop env_ok [pay1] state1" by simp
  from tail [THEN conjunct2, THEN conjunct2, THEN conjunct2, THEN conjunct1, rule_format, OF inv ne paid,
             of "[]" state1]
  have q2: "pollLoop env_ok [pay1] state1
        = pollLoop env_ok []
            (case activateSubscription env_ok pay1 (emit (Log ''Polling: payment confirmed'') state1) of
               (Inl err, s3) \<Rightarrow> emit (Log ''Polling check failed'') s3
             | (Inr u, s3) \<Rightarrow> s3)" .
  have ev: "map pay_status (payments (pollPendingPayments env_ok state1)) = [Completed]
            \<and> length (subscriptions (pollPendingPayments env_ok state1)) = 1"
    by (simp add: input_defs panel_defs store_defs flow_defs upper_char_def)
  from rd1 a len l0 b c d h hl q1 q2 ev show ?thesis by simp
qed

subsection \<open>The sales gate\<close>

text \<open>
  The flag \<open>salesBlocked\<close> is read by \<open>handleBuy\<close> only: every operation below it does
  the same with the flag set to any value.
\<close>

lemma sb_comm [simp]:
  "fetches_update g1 (salesBlocked_update h s) = salesBlocked_update h (fetches_update g1 s)"
  "trace_update g2 (salesBlocked_update h s) = salesBlocked_update h (trace_update g2 s)"
  "sessions_update g3 (salesBlocked_update h s) = salesBlocked_update h (sessions_update g3 s)"
  "uuids_update g4 (salesBlocked_update h s) = salesBlocked_update h (uuids_update g4 s)"
  "subscriptions_update g5 (salesBlocked_update h s) = salesBlocked_update h (subscriptions_update g5 s)"
  "sub_seq_update g6 (salesBlocked_update h s) = salesBlocked_update h (sub_seq_update g6 s)"
  "payments_update g7 (salesBlocked_update h s) = salesBlocked_update h (payments_update g7 s)"
  "pay_seq_update g8 (salesBlocked_update h s) = salesBlocked_update h (pay_seq_update g8 s)"
  "users_update g9 (salesBlocked_update h s) = salesBlocked_update h (users_update g9 s)"
  by (cases s; simp)+

lemma emit_sb: "emit ev (s\<lparr>salesBlocked := b\<rparr>) = (emit ev s)\<lparr>salesBlocked := b\<rparr>"
  by (simp add: emit_def)

lemma fetchLoop_sb:
  "fetchLoop e rq n a le (s\<lparr>salesBlocked := b\<rparr>) =
     (case fetchLoop e rq n a le s of (r, s') \<Rightarrow> (r, s'\<lparr>salesBlocked := b\<rparr>))"
proof (induction e rq n a le s rule: fetchLoop.induct)
  case (1 e rq retries attempt lastError s)
  show ?case
  proof (cases "attempt < retries")
    case False
    then show ?thesis by (simp add: fetchLoop.simps)
  next
    case True
    show ?thesis
    proof (cases "net e (fetches s)")
      case (Reply x)
      with True show ?thesis
        by (simp add: fetchLoop.simps[of e rq retries attempt] Let_def emit_def)
    next
      case (NetFail m)
      show ?thesis
      proof (cases "attempt + 1 < retries")
        case T2: True
        from "1.IH"[OF True refl NetFail] T2 True NetFail show ?thesis
          by (simp add: fetchLoop.simps[of e rq retries attempt] Let_def emit_def)
      next
        case F2: False
        from "1.IH"[OF True refl NetFail] F2 True NetFail show ?thesis
          by (simp add: fetchLoop.simps[of e rq retries attempt] Let_def emit_def)
      qed
    qed
  qed
qed

lemma login_sb:
  "login e code (s\<lparr>salesBlocked := b\<rparr>) =
     (case login e code s of (r, s') \<Rightarrow> (r, s'\<lparr>salesBlocked := b\<rparr>))"
  by (simp add: login_def Let_def fetchWithRetry_def emit_sb fetchLoop_sb emit_def
           split: sum.splits prod.splits option.splits)

lemma ensureSession_sb:
  "ensureSession e code (s\<lparr>salesBlocked := b\<rparr>) =
     (case ensureSession e code s of (r, s') \<Rightarrow> (r, s'\<lparr>salesBlocked := b\<rparr>))"
  by (simp add: ensureSession_def login_sb split: option.splits)

lemma doRequest_sb:
  "doRequest e m u bd c (s\<lparr>salesBlocked := b\<rparr>) =
     (case doRequest e m u bd c s of (r, s') \<Rightarrow> (r, s'\<lparr>salesBlocked := b\<rparr>))"
  by (simp add: doRequest_def fetchWithRetry_def emit_sb fetchLoop_sb)

lemma apiRequest_sb:
  "apiRequest e code m p bd (s\<lparr>salesBlocked := b\<rparr>) =
     (case apiRequest e code m p bd s of (r, s') \<Rightarrow> (r, s'\<lparr>salesBlocked := b\<rparr>))"
  by (simp add: apiRequest_def Let_def ensureSession_sb doRequest_sb login_sb emit_sb
           split: sum.splits prod.splits)

lemma addClient_sb:
  "addClient e code u em l tb ex (s\<lparr>salesBlocked := b\<rparr>) =
     (case addClient e code u em l tb ex s of (r, s') \<Rightarrow> (r, s'\<lparr>salesBlocked := b\<rparr>))"
  by (simp add: addClient_def apiRequest_sb emit_sb split: sum.splits prod.splits)

lemma createSubscription_sb:
  "createSubscription e a1 a2 a3 a4 a5 a6 a7 a8 (s\<lparr>salesBlocked := b\<rparr>) =
     (case createSubscription e a1 a2 a3 a4 a5 a6 a7 a8 s of (r, s') \<Rightarrow> (r, s'\<lparr>salesBlocked := b\<rparr>))"
  by (simp add: createSubscription_def fk_ok_def getUser_def getServerById_def Let_def)

lemma createPayment_sb:
  "createPayment e a1 a2 a3 a4 a5 a6 (s\<lparr>salesBlocked := b\<rparr>) =
     (case createPayment e a1 a2 a3 a4 a5 a6 s of (r, s') \<Rightarrow> (r, s'\<lparr>salesBlocked := b\<rparr>))"
  by (simp add: createPayment_def fk_ok_def getUser_def getServerById_def Let_def)

lemma activateSubscription_sb:
  "activateSubscription e pmt (s\<lparr>salesBlocked := b\<rparr>) =
     (case activateSubscription e pmt s of (r, s') \<Rightarrow> (r, s'\<lparr>salesBlocked := b\<rparr>))"
  by (simp add: activateSubscription_def Let_def getServerById_def addClient_sb [simplified]
        createSubscription_sb completePayment_def markTrialUsed_def emit_def
        split: option.splits sum.splits prod.splits)

text \<open>In both tariff tables the trial is the one tariff whose price is not positive.\<close>

lemma tariff_tables:
  "\<forall>t \<in> set ruTariffs. (0 < t_price t) = (t_id t \<noteq> ''trial'')"
  "\<forall>t \<in> set nlTariffs. (0 < t_price t) = (t_id t \<noteq> ''trial'')"
  by (simp_all add: ruTariffs_def nlTariffs_def)

lemma tariff_price:
  assumes "getTariff code tid = Some t"
  shows "t_id t = tid \<and> (0 < t_price t) = (tid \<noteq> ''trial'')"
proof -
  from assms obtain ts where ts: "serverTariffs code = Some ts" and fd: "find (\<lambda>t. t_id t = tid) ts = Some t"
    by (auto simp add: getTariff_def split: option.splits)
  from find_SomeD [OF fd] have mem: "t \<in> set ts" and tid: "t_id t = tid" by auto
  from ts have "ts = ruTariffs \<or> ts = nlTariffs"
    by (auto simp add: serverTariffs_def split: if_splits)
  with mem tariff_tables have "(0 < t_price t) = (t_id t \<noteq> ''trial'')" by blast
  with tid show ?thesis by simp
qed

text \<open>
  C10. While sales are blocked, a buy request for a tariff with a positive price is
  answered with the refusal and leaves the state (so the payments) untouched. A request
  for a tariff whose price is not positive, which is the trial, passes the gate: the
  handler does exactly what it does with sales open; a user who has used the trial is
  turned away by the trial check, and for any other user the pending payment of amount 0
  is created and \<open>activateSubscription\<close> is called on it at once.
\<close>

theorem handleBuy_sales_gate:
  assumes blocked: "salesBlocked s"
      and d: "cb_data c = Some data" and f: "from_id c = Some from"
      and p1: "at (split_colon data) 1 = Some code" and p2: "at (split_colon data) 2 = Some tid"
      and sv: "getServerByCode code s = Some server"
      and tf: "getTariff code tid = Some t"
  shows "(0 < t_price t \<longrightarrow>
            handleBuy e c s = (Inr (), emit (CbAnswer SalesSuspended) s))
       \<and> (\<not> 0 < t_price t \<longrightarrow>
            t_id t = ''trial'' \<and>
            handleBuy e c (s\<lparr>salesBlocked := False\<rparr>)
              = (case handleBuy e c s of (r, s') \<Rightarrow> (r, s'\<lparr>salesBlocked := False\<rparr>)) \<and>
            (\<forall>u. getUser from s = Some u \<longrightarrow> usr_trial_used u = 1 \<longrightarrow>
               handleBuy e c s = (Inr (), emit (CbAnswer TrialAlreadyUsed) s)) \<and>
            (\<forall>u. getUser from s = Some u \<longrightarrow> usr_trial_used u \<noteq> 1 \<longrightarrow>
               (\<exists>pmt s1.
                  createPayment e from ''trial'' (srv_id server) 0
                     (''trial_'' @ show_int from @ ''_'' @ show_int (date_now e)) [] s = (Inr pmt, s1)
                  \<and> pay_status pmt = Pending \<and> pay_amount pmt = 0
                  \<and> payments s1 = payments s @ [pmt]
                  \<and> handleBuy e c s =
                      (case activateSubscription e pmt s1 of
                         (Inl err, s2) \<Rightarrow> (Inl err, s2)
                       | (Inr u, s2) \<Rightarrow> (Inr (), emit (CbAnswer TrialActivated) s2)))))"
proof -
  note tp = tariff_price [OF tf]
  have paid: "0 < t_price t \<Longrightarrow> handleBuy e c s = (Inr (), emit (CbAnswer SalesSuspended) s)"
    using blocked d f p1 p2 sv tf by (simp add: handleBuy_def Let_def)
  have free: "t_id t = ''trial'' \<and>
            handleBuy e c (s\<lparr>salesBlocked := False\<rparr>)
              = (case handleBuy e c s of (r, s') \<Rightarrow> (r, s'\<lparr>salesBlocked := False\<rparr>)) \<and>
            (\<forall>u. getUser from s = Some u \<longrightarrow> usr_trial_used u = 1 \<longrightarrow>
               handleBuy e c s = (Inr (), emit (CbAnswer TrialAlreadyUsed) s)) \<and>
            (\<forall>u. getUser from s = Some u \<longrightarrow> usr_trial_used u \<noteq> 1 \<longrightarrow>
               (\<exists>pmt s1.
                  createPayment e from ''trial'' (srv_id server) 0
                     (''trial_'' @ show_int from @ ''_'' @ show_int (date_now e)) [] s = (Inr pmt, s1)
                  \<and> pay_status pmt = Pending \<and> pay_amount pmt = 0
                  \<and> payments s1 = payments s @ [pmt]
                  \<and> handleBuy e c s =
                      (case activateSubscription e pmt s1 of
                         (Inl err, s2) \<Rightarrow> (Inl err, s2)
                       | (Inr u, s2) \<Rightarrow> (Inr (), emit (CbAnswer TrialActivated) s2))))"
    if np: "\<not> 0 < t_price t"
  proof -
    from tp np have tr: "t_id t = ''trial''" by auto
    have sv': "getServerByCode code (s\<lparr>salesBlocked := False\<rparr>) = Some server"
      using sv by (simp add: getServerByCode_def)
    have indep: "handleBuy e c (s\<lparr>salesBlocked := False\<rparr>)
              = (case handleBuy e c s of (r, s') \<Rightarrow> (r, s'\<lparr>salesBlocked := False\<rparr>))"
      using d f p1 p2 sv sv' tf np tr
      by (simp add: handleBuy_def Let_def getUser_def createPayment_sb activateSubscription_sb emit_sb
               split: option.splits sum.splits prod.splits)
    have used: "\<forall>u. getUser from s = Some u \<longrightarrow> usr_trial_used u = 1 \<longrightarrow>
               handleBuy e c s = (Inr (), emit (CbAnswer TrialAlreadyUsed) s)"
      using d f p1 p2 sv tf np tr by (simp add: handleBuy_def Let_def)
    have fresh: "\<exists>pmt s1.
                  createPayment e from ''trial'' (srv_id server) 0
                     (''trial_'' @ show_int from @ ''_'' @ show_int (date_now e)) [] s = (Inr pmt, s1)
                  \<and> pay_status pmt = Pending \<and> pay_amount pmt = 0
                  \<and> payments s1 = payments s @ [pmt]
                  \<and> handleBuy e c s =
                      (case activateSubscription e pmt s1 of
                         (Inl err, s2) \<Rightarrow> (Inl err, s2)
                       | (Inr u, s2) \<Rightarrow> (Inr (), emit (CbAnswer TrialActivated) s2))"
      if gu: "getUser from s = Some u" and nu: "usr_trial_used u \<noteq> 1" for u
    proof -
      from sv have "server \<in> set (servers s) \<and> srv_code server = code"
        by (auto simp add: getServerByCode_def dest: find_SomeD)
      then have "getServerById (srv_id server) s \<noteq> None"
        by (auto simp add: getServerById_def find_None_iff)
      with gu have fk: "fk_ok from (srv_id server) s" by (simp add: fk_ok_def)
      let ?lbl = "''trial_'' @ show_int from @ ''_'' @ show_int (date_now e)"
      obtain pmt s1 where cp: "createPayment e from ''trial'' (srv_id server) 0 ?lbl [] s = (Inr pmt, s1)"
          and ps: "pay_status pmt = Pending" "pay_amount pmt = 0" "payments s1 = payments s @ [pmt]"
        using fk by (simp add: createPayment_def Let_def)
      have "handleBuy e c s =
                      (case activateSubscription e pmt s1 of
                         (Inl err, s2) \<Rightarrow> (Inl err, s2)
                       | (Inr u, s2) \<Rightarrow> (Inr (), emit (CbAnswer TrialActivated) s2))"
        using d f p1 p2 sv tf np tr gu nu cp
        by (simp add: handleBuy_def Let_def split: sum.splits prod.splits)
      with cp ps show ?thesis by blast
    qed
    from tr indep used fresh show ?thesis by blast
  qed
  from paid free show ?thesis by blast
qed


theorem handleBuy_sales_gate_witness:
  "handleBuy env_ok ctx_month state_blocked = (Inr (), emit (CbAnswer SalesSuspended) state_blocked)
   \<and> payments (emit (CbAnswer SalesSuspended) state_blocked) = []
   \<and> (\<exists>pmt s1.
          createPayment env_ok 42 ''trial'' (srv_id srv_ru) 0
             (''trial_'' @ show_int 42 @ ''_'' @ show_int (date_now env_ok)) [] state_blocked = (Inr pmt, s1)
          \<and> pay_status pmt = Pending \<and> pay_amount pmt = 0
          \<and> payments s1 = payments state_blocked @ [pmt]
          \<and> handleBuy env_ok ctx_trial state_blocked =
              (case activateSubscription env_ok pmt s1 of
                 (Inl err, s2) \<Rightarrow> (Inl err, s2)
               | (Inr u, s2) \<Rightarrow> (Inr (), emit (CbAnswer TrialActivated) s2)))
   \<and> map pay_status (payments (snd (handleBuy env_ok ctx_trial state_blocked))) = [Completed]
   \<and> length (subscriptions (snd (handleBuy env_ok ctx_trial state_blocked))) = 1"
proof -
  let ?month = "\<lparr>t_id = ''month'', t_price = 150, t_days = 30, t_minutes = None, t_maxDevices = 3\<rparr>"
  let ?trial = "\<lparr>t_id = ''trial'', t_price = 0, t_days = 1, t_minutes = None, t_maxDevices = 1\<rparr>"
  have blocked: "salesBlocked state_blocked" by (simp add: state_blocked_def)
  have dm: "cb_data ctx_month = Some ''buy:ru:month''" and dt: "cb_data ctx_trial = Some ''buy:ru:trial''"
    and fm: "from_id ctx_month = Some 42" and ft: "from_id ctx_trial = Some 42"
    by (simp_all add: ctx_month_def ctx_trial_def)
  have pm: "at (split_colon ''buy:ru:month'') 1 = Some ''ru''" "at (split_colon ''buy:ru:month'') 2 = Some ''month''"
    and pt: "at (split_colon ''buy:ru:trial'') 1 = Some ''ru''" "at (split_colon ''buy:ru:trial'') 2 = Some ''trial''"
    by (simp_all add: at_def)
  have sv: "getServerByCode ''ru'' state_blocked = Some srv_ru"
    by (simp add: getServerByCode_def state_blocked_def state0_def srv_ru_def)
  have tm: "getTariff ''ru'' ''month'' = Some ?month" and tt: "getTariff ''ru'' ''trial'' = Some ?trial"
    by (simp_all add: getTariff_def serverTariffs_def ruTariffs_def)
  have gu: "getUser 42 state_blocked = Some user42"
    by (simp add: getUser_def state_blocked_def state0_def user42_def)
  have nu: "usr_trial_used user42 \<noteq> 1" by (simp add: user42_def)
  have pos: "0 < t_price ?month" and zero: "\<not> 0 < t_price ?trial" by simp_all
  from handleBuy_sales_gate [OF blocked dm fm pm sv tm, of env_ok, THEN conjunct1, rule_format, OF pos]
  have a: "handleBuy env_ok ctx_month state_blocked = (Inr (), emit (CbAnswer SalesSuspended) state_blocked)" .
  have b: "payments (emit (CbAnswer SalesSuspended) state_blocked) = []"
    by (simp add: emit_def state_blocked_def state0_def)
  from handleBuy_sales_gate [OF blocked dt ft pt sv tt, of env_ok, THEN conjunct2, rule_format, OF zero]
  have "\<forall>u. getUser 42 state_blocked = Some u \<longrightarrow> usr_trial_used u \<noteq> 1 \<longrightarrow>
          (\<exists>pmt s1.
          createPayment env_ok 42 ''trial'' (srv_id srv_ru) 0
             (''trial_'' @ show_int 42 @ ''_'' @ show_int (date_now env_ok)) [] state_blocked = (Inr pmt, s1)
          \<and> pay_status pmt = Pending \<and> pay_amount pmt = 0
          \<and> payments s1 = payments state_blocked @ [pmt]
          \<and> handleBuy env_ok ctx_trial state_blocked =
              (case activateSubscription env_ok pmt s1 of
                 (Inl err, s2) \<Rightarrow> (Inl err, s2)
               | (Inr u, s2) \<Rightarrow> (Inr (), emit (CbAnswer TrialActivated) s2)))"
    by blast
  from this [rule_format, OF gu nu]
  have c: "\<exists>pmt s1.
          createPayment env_ok 42 ''trial'' (srv_id srv_ru) 0
             (''trial_'' @ show_int 42 @ ''_'' @ show_int (date_now env_ok)) [] state_blocked = (Inr pmt, s1)
          \<and> pay_status pmt = Pending \<and> pay_amount pmt = 0
          \<and> payments s1 = payments state_blocked @ [pmt]
          \<and> handleBuy env_ok ctx_trial state_blocked =
              (case activateSubscription env_ok pmt s1 of
                 (Inl err, s2) \<Rightarrow> (Inl err, s2)
               | (Inr u, s2) \<Rightarrow> (Inr (), emit (CbAnswer TrialActivated) s2))" .
  have d: "map pay_status (payments (snd (handleBuy env_ok ctx_trial state_blocked))) = [Completed]
           \<and> length (subscriptions (snd (handleBuy env_ok ctx_trial state_blocked))) = 1"
    by (simp add: input_defs store_defs flow_defs panel_defs ctx_trial_def state_blocked_def upper_char_def)
  from a b c d show ?thesis by blast
qed

end
